theory Spec2Isabelle
  imports Main "HOL-Library.AList"
begin

section \<open>JavaScript values\<close>

text \<open>
  The iterator node of \<^verbatim>\<open>src/nodes/IteratorPluginNode.ts\<close> inspects its input items at run
  time (\<^verbatim>\<open>typeof\<close>, \<^verbatim>\<open>Object.keys\<close>, \<^verbatim>\<open>in\<close>, \<^verbatim>\<open>==\<close>), so items, data values and
  outputs are modelled as untyped JavaScript data. An object is the list of its own
  properties in the order \<^verbatim>\<open>Object.keys\<close> enumerates them (keys distinct). Numbers are
  integers: no claim depends on fractional arithmetic. Inherited (prototype) properties are
  not modelled: the source only reads the properties \<^verbatim>\<open>type\<close>, \<^verbatim>\<open>value\<close>, \<^verbatim>\<open>outputs\<close>,
  \<^verbatim>\<open>error\<close> and \<^verbatim>\<open>id\<close>, which no built-in prototype defines.
\<close>

datatype jsval =
    JUndefined
  | JNull
  | JBool bool
  | JNum int
  | JStr string
  | JArr "jsval list"
  | JObj "(string \<times> jsval) list"

text \<open>A thrown value: its constructor name is the datatype constructor, its message the text.\<close>

datatype js_error =
    TypeError string
  | SyntaxError string
  | JsError string

fun message :: "js_error \<Rightarrow> string" where
  "message (TypeError m) = m"
| "message (SyntaxError m) = m"
| "message (JsError m) = m"

text \<open>Sequencing of steps that may throw: the first exception ends the computation.\<close>

definition bind_e :: "js_error + 'a \<Rightarrow> ('a \<Rightarrow> js_error + 'b) \<Rightarrow> js_error + 'b" where
  "bind_e m f = (case m of Inl e \<Rightarrow> Inl e | Inr x \<Rightarrow> f x)"

fun typeof :: "jsval \<Rightarrow> string" where
  "typeof JUndefined = ''undefined''"
| "typeof JNull = ''object''"
| "typeof (JBool b) = ''boolean''"
| "typeof (JNum n) = ''number''"
| "typeof (JStr s) = ''string''"
| "typeof (JArr xs) = ''object''"
| "typeof (JObj kvs) = ''object''"

text \<open>Decimal text of an index or a number, as a template literal prints it.\<close>

fun string_of_nat :: "nat \<Rightarrow> string" where
  "string_of_nat n =
     (if n < 10 then [''0123456789'' ! n]
      else string_of_nat (n div 10) @ [''0123456789'' ! (n mod 10)])"

declare string_of_nat.simps [simp del]

text \<open>\<^verbatim>\<open>Array.prototype.join\<close> on texts.\<close>

fun join :: "string \<Rightarrow> string list \<Rightarrow> string" where
  "join sep [] = []"
| "join sep [x] = x"
| "join sep (x # y # ys) = x @ sep @ join sep (y # ys)"

text \<open>
  The text of a value inside a template literal. An array prints its elements joined by
  commas, \<^verbatim>\<open>null\<close> and \<^verbatim>\<open>undefined\<close> elements as the empty text.
\<close>

fun ToString :: "jsval \<Rightarrow> string" where
  "ToString JUndefined = ''undefined''"
| "ToString JNull = ''null''"
| "ToString (JBool b) = (if b then ''true'' else ''false'')"
| "ToString (JNum n) =
     (if n < 0 then ''-'' @ string_of_nat (nat (- n)) else string_of_nat (nat n))"
| "ToString (JStr s) = s"
| "ToString (JArr xs) =
     join '','' (map (\<lambda>x. if x = JUndefined \<or> x = JNull then [] else ToString x) xs)"
| "ToString (JObj kvs) = ''[object Object]''"

text \<open>\<^verbatim>\<open>xs.join(sep)\<close> on an array of values.\<close>

definition array_join :: "string \<Rightarrow> jsval list \<Rightarrow> string" where
  "array_join sep xs =
     join sep (map (\<lambda>x. if x = JUndefined \<or> x = JNull then [] else ToString x) xs)"

text \<open>
  \<^verbatim>\<open>x == t\<close> for a text \<open>t\<close> that does not read as a number (the source compares with
  \<^verbatim>\<open>"object"\<close> and \<^verbatim>\<open>"control-flow-excluded"\<close>): a number or a boolean is compared with NaN,
  an array or an object through its text.
\<close>

fun loose_eq_str :: "jsval \<Rightarrow> string \<Rightarrow> bool" where
  "loose_eq_str (JStr s) t = (s = t)"
| "loose_eq_str (JArr xs) t = (ToString (JArr xs) = t)"
| "loose_eq_str (JObj kvs) t = (ToString (JObj kvs) = t)"
| "loose_eq_str JUndefined t = False"
| "loose_eq_str JNull t = False"
| "loose_eq_str (JBool b) t = False"
| "loose_eq_str (JNum n) t = False"

text \<open>\<^verbatim>\<open>x[k]\<close> for a named property \<open>k\<close> of a value that is neither null nor undefined.\<close>

fun js_prop :: "jsval \<Rightarrow> string \<Rightarrow> jsval" where
  "js_prop (JObj kvs) k = (case map_of kvs k of Some v \<Rightarrow> v | None \<Rightarrow> JUndefined)"
| "js_prop x k = JUndefined"

text \<open>\<^verbatim>\<open>x[k]\<close>: reading a property of null or undefined throws.\<close>

fun get_prop :: "jsval \<Rightarrow> string \<Rightarrow> js_error + jsval" where
  "get_prop JUndefined k = Inl (TypeError ''Cannot read properties of undefined'')"
| "get_prop JNull k = Inl (TypeError ''Cannot read properties of null'')"
| "get_prop x k = Inr (js_prop x k)"

text \<open>\<^verbatim>\<open>x?.k\<close>: optional chaining gives undefined on null and undefined.\<close>

fun opt_prop :: "jsval \<Rightarrow> string \<Rightarrow> jsval" where
  "opt_prop JUndefined k = JUndefined"
| "opt_prop JNull k = JUndefined"
| "opt_prop x k = js_prop x k"

text \<open>\<^verbatim>\<open>Object.keys\<close> and \<^verbatim>\<open>Object.values\<close>: both throw on null and undefined.\<close>

fun Object_keys :: "jsval \<Rightarrow> js_error + string list" where
  "Object_keys JUndefined = Inl (TypeError ''Cannot convert undefined or null to object'')"
| "Object_keys JNull = Inl (TypeError ''Cannot convert undefined or null to object'')"
| "Object_keys (JObj kvs) = Inr (map fst kvs)"
| "Object_keys (JArr xs) = Inr (map string_of_nat [0..<length xs])"
| "Object_keys (JStr s) = Inr (map string_of_nat [0..<length s])"
| "Object_keys (JBool b) = Inr []"
| "Object_keys (JNum n) = Inr []"

fun Object_values :: "jsval \<Rightarrow> js_error + jsval list" where
  "Object_values JUndefined = Inl (TypeError ''Cannot convert undefined or null to object'')"
| "Object_values JNull = Inl (TypeError ''Cannot convert undefined or null to object'')"
| "Object_values (JObj kvs) = Inr (map snd kvs)"
| "Object_values (JArr xs) = Inr xs"
| "Object_values (JStr s) = Inr (map (\<lambda>c. JStr [c]) s)"
| "Object_values (JBool b) = Inr []"
| "Object_values (JNum n) = Inr []"

text \<open>\<^verbatim>\<open>k in x\<close> for a named property \<open>k\<close>: throws unless \<open>x\<close> is an object or an array.\<close>

fun in_op :: "string \<Rightarrow> jsval \<Rightarrow> js_error + bool" where
  "in_op k (JObj kvs) = Inr (k \<in> set (map fst kvs))"
| "in_op k (JArr xs) = Inr (k \<in> set (''length'' # map string_of_nat [0..<length xs]))"
| "in_op k x = Inl (TypeError ''Cannot use in operator to search for a key in a non-object'')"

text \<open>\<^verbatim>\<open>xs.includes(s)\<close> on an array of texts: only a text can be found in it.\<close>

fun js_includes :: "string list \<Rightarrow> jsval \<Rightarrow> bool" where
  "js_includes ks (JStr k) = (k \<in> set ks)"
| "js_includes ks x = False"

text \<open>
  \<^verbatim>\<open>Set.prototype.add\<close> on a set kept in insertion order. Objects are compared by
  structure rather than by reference; the source adds texts to \<^verbatim>\<open>missingKeys\<close> and at most
  one value to \<^verbatim>\<open>notDataValue\<close>.
\<close>

definition Set_add :: "jsval \<Rightarrow> jsval list \<Rightarrow> jsval list" where
  "Set_add x xs = (if x \<in> set xs then xs else xs @ [x])"

text \<open>\<^verbatim>\<open>xs.some(p)\<close> and \<^verbatim>\<open>xs.filter(p)\<close> for a callback that may throw.\<close>

fun some_e :: "('a \<Rightarrow> js_error + bool) \<Rightarrow> 'a list \<Rightarrow> js_error + bool" where
  "some_e p [] = Inr False"
| "some_e p (x # xs) =
     (case p x of Inl e \<Rightarrow> Inl e | Inr b \<Rightarrow> if b then Inr True else some_e p xs)"

fun filter_e :: "('a \<Rightarrow> js_error + bool) \<Rightarrow> 'a list \<Rightarrow> js_error + 'a list" where
  "filter_e p [] = Inr []"
| "filter_e p (x # xs) =
     (case p x of
        Inl e \<Rightarrow> Inl e
      | Inr b \<Rightarrow>
          (case filter_e p xs of
             Inl e \<Rightarrow> Inl e
           | Inr ys \<Rightarrow> Inr (if b then x # ys else ys)))"

section \<open>External collaborators\<close>

text \<open>
  What the node calls but does not define: \<^verbatim>\<open>JSON\<close>, the lz-string library, the digest
  behind \<^verbatim>\<open>sha256\<close>, the helpers of the Rivet library, and the call-graph node that runs the
  subgraph (\<open>invoke i inputs\<close> is the result of \<^verbatim>\<open>impl.process(iteratorInputData, context)\<close>
  for the item at index \<open>i\<close>, \<open>Inl\<close> when it throws or rejects). \<^verbatim>\<open>JSON.stringify\<close> is
  total on the plain data of \<open>jsval\<close>, except that it gives undefined for undefined (see
  \<open>stringify\<close>). The compression functions may throw, as the source's own try blocks around
  them allow, and so may Rivet's three predicates on the \<^verbatim>\<open>type\<close> of a value, which is
  not known to be a text.
\<close>

record env =
  JSON_stringify :: "jsval \<Rightarrow> string"
  JSON_parse :: "string \<Rightarrow> js_error + jsval"
  compressToUTF16 :: "string \<Rightarrow> js_error + string"
  decompressFromUTF16 :: "string \<Rightarrow> js_error + string option"
  sha256 :: "string \<Rightarrow> string"
  isScalarDataType :: "jsval \<Rightarrow> js_error + bool"
  isArrayDataType :: "jsval \<Rightarrow> js_error + bool"
  isFunctionDataType :: "jsval \<Rightarrow> js_error + bool"
  dedent :: "string \<Rightarrow> string"
  invoke :: "nat \<Rightarrow> jsval \<Rightarrow> js_error + (string \<times> jsval) list"

text \<open>\<^verbatim>\<open>JSON.stringify(v)\<close>: \<open>None\<close> is the result undefined.\<close>

definition stringify :: "env \<Rightarrow> jsval \<Rightarrow> string option" where
  "stringify env v = (if v = JUndefined then None else Some (JSON_stringify env v))"

section \<open>The codec of cached results\<close>

text \<open>
  \<^verbatim>\<open>compressObject\<close> (lines 57-65): lz-string's \<^verbatim>\<open>compressToUTF16\<close> returns the empty text
  for an undefined input; any exception is logged and thrown again.
\<close>

definition compressObject :: "env \<Rightarrow> jsval \<Rightarrow> js_error + string" where
  "compressObject env obj =
     (case stringify env obj of
        None \<Rightarrow> Inr []
      | Some jsonString \<Rightarrow> compressToUTF16 env jsonString)"

text \<open>
  \<^verbatim>\<open>decompressObject\<close> (lines 72-83): a null or empty decompressed text throws, and so does
  whatever the library or \<^verbatim>\<open>JSON.parse\<close> throws.
\<close>

definition decompressObject :: "env \<Rightarrow> string \<Rightarrow> js_error + jsval" where
  "decompressObject env compressedData =
     (case decompressFromUTF16 env compressedData of
        Inl e \<Rightarrow> Inl e
      | Inr None \<Rightarrow> Inl (JsError ''Decompression returned null or undefined.'')
      | Inr (Some decompressed) \<Rightarrow>
          if decompressed = []
          then Inl (JsError ''Decompression returned null or undefined.'')
          else JSON_parse env decompressed)"

section \<open>The cache store\<close>

text \<open>
  One entry of \<^verbatim>\<open>iteratorPluginCacheStorage\<close> (lines 115-128). Times are what
  \<^verbatim>\<open>Date.now()\<close> returns: milliseconds since the epoch.
\<close>

record cacheEntry =
  cache :: "string \<rightharpoonup> string"
  expiryTimestamp :: int
  graphSnapshot :: "string option"

type_synonym storage = "string option \<rightharpoonup> cacheEntry"

text \<open>
  Lines 337-341: the stored entry of the node, or a new one. \<open>now\<close> is \<^verbatim>\<open>Date.now()\<close>.
\<close>

definition get_cacheStorage :: "storage \<Rightarrow> string option \<Rightarrow> int \<Rightarrow> string \<Rightarrow> cacheEntry" where
  "get_cacheStorage st nodeId now snapshot =
     (case st nodeId of
        Some entry \<Rightarrow> entry
      | None \<Rightarrow>
          \<lparr>cache = Map.empty,
           expiryTimestamp = now + 1 * 60 * 60,
           graphSnapshot = Some snapshot\<rparr>)"

text \<open>One hour in the unit of \<^verbatim>\<open>Date.now()\<close>, for comparison with the source's constant.\<close>

definition one_hour_ms :: int where
  "one_hour_ms = 60 * 60 * 1000"

text \<open>\<^verbatim>\<open>invalideCacheIfChanges\<close> (lines 537-556).\<close>

definition invalideCacheIfChanges :: "cacheEntry \<Rightarrow> string \<Rightarrow> cacheEntry" where
  "invalideCacheIfChanges cacheStorage snapshot =
     (if graphSnapshot cacheStorage \<noteq> Some snapshot
      then cacheStorage\<lparr>cache := Map.empty, graphSnapshot := Some snapshot\<rparr>
      else cacheStorage)"

text \<open>\<^verbatim>\<open>cleanExpiredCache\<close> (lines 612-623), with \<open>now\<close> its own reading of the clock.\<close>

definition cleanExpiredCache :: "storage \<Rightarrow> int \<Rightarrow> storage" where
  "cleanExpiredCache st now =
     (\<lambda>key. case st key of
        None \<Rightarrow> None
      | Some entry \<Rightarrow> if expiryTimestamp entry < now then None else Some entry)"

section \<open>Validation of the input items\<close>

text \<open>A node of the subgraph: its type and its data object.\<close>

record chartNode =
  node_type :: string
  node_data :: "(string \<times> jsval) list"

text \<open>\<^verbatim>\<open>isAnyDataValue\<close> (lines 514-523); \<^verbatim>\<open>in\<close> throws on null.\<close>

definition isAnyDataValue :: "env \<Rightarrow> jsval \<Rightarrow> js_error + bool" where
  "isAnyDataValue env data =
     (if typeof data \<noteq> ''object'' then Inr False
      else bind_e (in_op ''type'' data) (\<lambda>hasType.
        if \<not> hasType then Inr False
        else bind_e (in_op ''value'' data) (\<lambda>hasValue.
          if \<not> hasValue then Inr False
          else bind_e (isScalarDataType env (js_prop data ''type'')) (\<lambda>scalar.
            if scalar then Inr True
            else bind_e (isArrayDataType env (js_prop data ''type'')) (\<lambda>array.
              if array then Inr True
              else isFunctionDataType env (js_prop data ''type''))))))"

text \<open>\<^verbatim>\<open>isObjectDataValue\<close> (lines 529-535).\<close>

definition isObjectDataValue :: "jsval \<Rightarrow> bool" where
  "isObjectDataValue data \<longleftrightarrow>
     typeof data = ''object''
     \<and> loose_eq_str (opt_prop data ''type'') ''object''
     \<and> typeof (opt_prop data ''value'') = ''object''"

text \<open>The two sets \<^verbatim>\<open>missingKeys\<close> and \<^verbatim>\<open>notDataValue\<close> that validation fills.\<close>

record problems =
  missingKeys :: "jsval list"
  notDataValue :: "jsval list"

text \<open>
  Lines 578-584: the ids of the graph's input nodes; an absent, undefined or null id is
  dropped.
\<close>

definition expectedKeys :: "chartNode list \<Rightarrow> jsval list" where
  "expectedKeys nodes =
     filter (\<lambda>f. f \<noteq> JNull \<and> f \<noteq> JUndefined)
       (map (\<lambda>m. let id = js_prop (JObj (node_data m)) ''id''
                 in if id = JUndefined \<or> id = JNull then JNull else id)
          (filter (\<lambda>f. node_type f = ''graphInput'') nodes))"

text \<open>
  Lines 596-608: \<^verbatim>\<open>itemValues.some\<close> stops at the first value that is not a data value and
  records it.
\<close>

fun invalidData :: "env \<Rightarrow> jsval list \<Rightarrow> problems \<Rightarrow> js_error + bool \<times> problems" where
  "invalidData env [] pr = Inr (False, pr)"
| "invalidData env (s # ss) pr =
     (case isAnyDataValue env s of
        Inl e \<Rightarrow> Inl e
      | Inr isDataType \<Rightarrow>
          if \<not> isDataType then Inr (True, pr\<lparr>notDataValue := Set_add s (notDataValue pr)\<rparr>)
          else invalidData env ss pr)"

text \<open>\<^verbatim>\<open>validateInputItem\<close> (lines 558-610): the result and the two sets after the call.\<close>

definition validateInputItem ::
  "env \<Rightarrow> jsval \<Rightarrow> chartNode list \<Rightarrow> problems \<Rightarrow> js_error + bool \<times> problems" where
  "validateInputItem env item nodes pr =
     bind_e (Object_keys item) (\<lambda>itemKeys0.
     bind_e (if isObjectDataValue item then Object_keys (js_prop item ''value'')
             else Inr itemKeys0) (\<lambda>itemKeys.
     bind_e (Object_values item) (\<lambda>itemValues0.
     bind_e (if isObjectDataValue item then Object_values (js_prop item ''value'')
             else Inr itemValues0) (\<lambda>itemValues.
       if list_ex (\<lambda>s. \<not> js_includes itemKeys s) (expectedKeys nodes)
       then Inr (True,
              pr\<lparr>missingKeys :=
                   fold Set_add (filter (\<lambda>key. \<not> js_includes itemKeys key) (expectedKeys nodes))
                     (missingKeys pr)\<rparr>)
       else invalidData env itemValues pr))))"

text \<open>
  Lines 347-349: \<^verbatim>\<open>iteratorInputs.some\<close> calls the validator item by item and stops at the
  first item it reports invalid.
\<close>

fun invalidInputs ::
  "env \<Rightarrow> jsval list \<Rightarrow> chartNode list \<Rightarrow> problems \<Rightarrow> js_error + bool \<times> problems" where
  "invalidInputs env [] nodes pr = Inr (False, pr)"
| "invalidInputs env (s # ss) nodes pr =
     (case validateInputItem env s nodes pr of
        Inl e \<Rightarrow> Inl e
      | Inr (invalid, pr') \<Rightarrow>
          if invalid then Inr (True, pr') else invalidInputs env ss nodes pr')"

section \<open>Outputs\<close>

definition excluded :: jsval where
  "excluded = JObj [(''type'', JStr ''control-flow-excluded''), (''value'', JUndefined)]"

definition string_value :: "string \<Rightarrow> jsval" where
  "string_value s = JObj [(''type'', JStr ''string''), (''value'', JStr s)]"

text \<open>Lines 313-321: the outputs of the whole-batch shape rejection.\<close>

definition shape_rejection :: "env \<Rightarrow> jsval" where
  "shape_rejection env =
     JObj [(''iteratorOutputs'', excluded),
           (''error'', string_value (dedent env
              (''Input array must be an array of objects.  Each object needs to be a DataValue.''
               @ ''  A graph needs an object with keys that match the graph''
               @ [CHR 0x27] @ ''s input ports'')))]"

text \<open>
  Lines 356-368: the validation message. \<^verbatim>\<open>JSON.stringify\<close> of an undefined value is
  undefined, which \<^verbatim>\<open>join\<close> prints as the empty text.
\<close>

definition errorMessage :: "env \<Rightarrow> problems \<Rightarrow> string" where
  "errorMessage env pr =
     ''Input validation error::''
     @ (if missingKeys pr \<noteq> []
        then ''Missing keys required for graph: \<newline>            ''
             @ array_join ''; '' (missingKeys pr)
        else [])
     @ (if notDataValue pr \<noteq> []
        then dedent env
               (''Invalid Inputs, make sure each input item is a ObjectDataValue: \<newline>            ''
                @ join ''; ''
                    (map (\<lambda>v. case stringify env v of None \<Rightarrow> [] | Some s \<Rightarrow> s)
                       (notDataValue pr)))
        else [])"

text \<open>Lines 351-374: the outputs of a failed validation.\<close>

definition validation_rejection :: "env \<Rightarrow> problems \<Rightarrow> jsval" where
  "validation_rejection env pr =
     JObj [(''iteratorOutputs'', excluded),
           (''error'', string_value (errorMessage env pr))]"

section \<open>The node's process function, up to the dispatch of the tasks\<close>

text \<open>
  The node's stored data, and what \<^verbatim>\<open>process\<close> reads from its arguments after
  \<^verbatim>\<open>rivet.coerceType\<close>: the raw graph input, the name of the referenced graph, the input
  array, the optional chunk size, and \<^verbatim>\<open>context.project.graphs[graphRef.graphId]\<close>
  (\<open>None\<close> when the project has no such graph).
\<close>

record nodeData =
  chunkSize :: int
  hasCache :: bool
  nodeId :: "string option"

record inputs =
  graphInput :: jsval
  graphName :: string
  iteratorInputs :: "jsval list"
  chunkSizeInput :: "int option"
  graph :: "chartNode list option"

text \<open>Lines 299-304: the concurrency handed to the queue.\<close>

definition queue_concurrency :: "nodeData \<Rightarrow> inputs \<Rightarrow> int" where
  "queue_concurrency data inp =
     (let c = (case chunkSizeInput inp of Some c \<Rightarrow> c | None \<Rightarrow> chunkSize data)
      in if c > 0 then c else 1)"

text \<open>What the tasks of one invocation share besides the mutable state.\<close>

record dispatch =
  d_items :: "jsval list"
  d_hasCache :: bool
  d_graphInput :: jsval
  d_graphName :: string

text \<open>Lines 328-330: the fingerprint of the subgraph's node data.\<close>

definition graph_snapshot :: "env \<Rightarrow> chartNode list \<Rightarrow> string" where
  "graph_snapshot env nodes =
     sha256 env (JSON_stringify env (JArr (map (\<lambda>m. JObj (node_data m)) nodes)))"

datatype prelude =
    Thrown js_error
  | Returned jsval
  | Dispatched dispatch cacheEntry

text \<open>
  Lines 283-374. The entry read from the store is the stored object itself, so clearing it
  is visible in the store at once; a newly created entry is not in the store yet.
\<close>

definition process_validating ::
  "env \<Rightarrow> nodeData \<Rightarrow> inputs \<Rightarrow> storage \<Rightarrow> int \<Rightarrow> storage \<times> prelude" where
  "process_validating env data inp st now =
     (if list_ex (\<lambda>s. typeof s \<noteq> ''object'') (iteratorInputs inp)
      then (st, Returned (shape_rejection env))
      else
        (case graph inp of
           None \<Rightarrow> (st, Thrown (TypeError ''Cannot read properties of undefined''))
         | Some nodes \<Rightarrow>
             let snapshot = graph_snapshot env nodes;
                 cacheStorage =
                   invalideCacheIfChanges (get_cacheStorage st (nodeId data) now snapshot) snapshot;
                 st' = (if st (nodeId data) = None then st
                        else st(nodeId data \<mapsto> cacheStorage))
             in
               (case invalidInputs env (iteratorInputs inp) nodes
                       \<lparr>missingKeys = [], notDataValue = []\<rparr> of
                  Inl e \<Rightarrow> (st', Thrown e)
                | Inr (invalid, pr) \<Rightarrow>
                    if invalid then (st', Returned (validation_rejection env pr))
                    else
                      (st', Dispatched
                         \<lparr>d_items = iteratorInputs inp,
                          d_hasCache = (hasCache data \<and> nodeId data \<noteq> None),
                          d_graphInput = graphInput inp,
                          d_graphName = graphName inp\<rparr>
                         cacheStorage))))"

section \<open>The task of one item\<close>

text \<open>
  The task of an item (lines 379-455) is an async function: it runs without interruption
  from one \<^verbatim>\<open>await\<close> to the next. A task is \<open>Pending\<close> until the queue starts it, then
  waits for the cache key (\<open>AwaitKey\<close>, line 404), for the subgraph (\<open>AwaitProcess\<close>,
  line 418) or for the cache key again with the subgraph's outputs in hand
  (\<open>AwaitStoreKey\<close>, line 421), and is \<open>Finished\<close> with the outputs its promise resolves to.
  Creating the call-graph node (lines 384-386) is taken to succeed.
\<close>

datatype phase =
    Pending
  | AwaitKey
  | AwaitProcess
  | AwaitStoreKey "(string \<times> jsval) list"
  | Finished jsval

record iterState =
  abortIteration :: bool
  cacheMap :: "string \<rightharpoonup> string"
  tasks :: "phase list"
  invoked :: "nat list"

text \<open>Lines 389-406: the inputs of the call-graph node and the cache key of an item.\<close>

definition itemDataValue :: "jsval \<Rightarrow> jsval" where
  "itemDataValue item =
     (if isObjectDataValue item then item
      else JObj [(''type'', JStr ''object''), (''value'', item)])"

definition iteratorInputData :: "dispatch \<Rightarrow> jsval \<Rightarrow> jsval" where
  "iteratorInputData d item =
     JObj [(''graph'', d_graphInput d), (''inputs'', itemDataValue item)]"

definition cacheKey :: "env \<Rightarrow> dispatch \<Rightarrow> jsval \<Rightarrow> string" where
  "cacheKey env d item = sha256 env (JSON_stringify env (iteratorInputData d item))"

text \<open>Lines 433-436: the outputs of a task that finds the abort flag set.\<close>

definition skippedOutput :: jsval where
  "skippedOutput = JObj [(''outputs'', excluded)]"

text \<open>
  Lines 439-451: the catch block writes the two ports into \<^verbatim>\<open>itemOutput\<close>, which is empty
  unless the subgraph's outputs were already assigned to it.
\<close>

definition failureMessage :: "env \<Rightarrow> dispatch \<Rightarrow> nat \<Rightarrow> jsval \<Rightarrow> js_error \<Rightarrow> string" where
  "failureMessage env d index item err =
     ''Error running graph '' @ d_graphName d
     @ ''.  ItemIndex: '' @ string_of_nat index
     @ ''::  Inputs: '' @ (case stringify env item of None \<Rightarrow> ''undefined'' | Some s \<Rightarrow> s)
     @ ''  Message: '' @ message err"

definition failedOutput ::
  "env \<Rightarrow> dispatch \<Rightarrow> nat \<Rightarrow> jsval \<Rightarrow> (string \<times> jsval) list \<Rightarrow> js_error \<Rightarrow> jsval" where
  "failedOutput env d index item itemOutput err =
     JObj (AList.update ''error'' (string_value (failureMessage env d index item err))
            (AList.update ''outputs'' excluded itemOutput))"

text \<open>
  What the try block does from the task's current phase to its next \<^verbatim>\<open>await\<close>, return or
  exception: it suspends, calls the subgraph and suspends, returns outputs, stores a
  compressed result and returns, or throws with \<^verbatim>\<open>itemOutput\<close> as it then is.
\<close>

datatype segment =
    Suspends phase
  | Calls
  | Returns jsval
  | Stores string string jsval
  | Throws "(string \<times> jsval) list" js_error

fun task_segment :: "env \<Rightarrow> dispatch \<Rightarrow> nat \<Rightarrow> jsval \<Rightarrow> iterState \<Rightarrow> phase \<Rightarrow> segment" where
  "task_segment env d index item s Pending =
     (if \<not> abortIteration s
      then (if d_hasCache d then Suspends AwaitKey else Calls)
      else Returns skippedOutput)"
| "task_segment env d index item s AwaitKey =
     (case cacheMap s (cacheKey env d item) of
        None \<Rightarrow> Calls
      | Some cachedOutputCompressed \<Rightarrow>
          if cachedOutputCompressed \<noteq> []
          then (case decompressObject env cachedOutputCompressed of
                  Inl e \<Rightarrow> Throws [] e
                | Inr v \<Rightarrow> Returns v)
          else Calls)"
| "task_segment env d index item s AwaitProcess =
     (case invoke env index (iteratorInputData d item) of
        Inl e \<Rightarrow> Throws [] e
      | Inr itemOutput \<Rightarrow>
          if d_hasCache d then Suspends (AwaitStoreKey itemOutput)
          else Returns (JObj itemOutput))"
| "task_segment env d index item s (AwaitStoreKey itemOutput) =
     (case compressObject env (JObj itemOutput) of
        Inl e \<Rightarrow> Throws itemOutput e
      | Inr c \<Rightarrow> Stores (cacheKey env d item) c (JObj itemOutput))"
| "task_segment env d index item s (Finished v) = Returns v"

text \<open>
  One uninterrupted run of task \<open>index\<close>, with the catch block (lines 438-453) for an
  exception. A finished task and an index outside the batch change nothing.
\<close>

definition task_step :: "env \<Rightarrow> dispatch \<Rightarrow> nat \<Rightarrow> iterState \<Rightarrow> iterState" where
  "task_step env d index s =
     (if index < length (tasks s) \<and> index < length (d_items d) then
        (case tasks s ! index of
           Finished v \<Rightarrow> s
         | ph \<Rightarrow>
             (case task_segment env d index (d_items d ! index) s ph of
                Suspends ph' \<Rightarrow> s\<lparr>tasks := (tasks s)[index := ph']\<rparr>
              | Calls \<Rightarrow>
                  s\<lparr>tasks := (tasks s)[index := AwaitProcess], invoked := invoked s @ [index]\<rparr>
              | Returns v \<Rightarrow> s\<lparr>tasks := (tasks s)[index := Finished v]\<rparr>
              | Stores k c v \<Rightarrow>
                  s\<lparr>cacheMap := (cacheMap s)(k \<mapsto> c), tasks := (tasks s)[index := Finished v]\<rparr>
              | Throws itemOutput e \<Rightarrow>
                  s\<lparr>abortIteration := True,
                    tasks := (tasks s)
                      [index := Finished (failedOutput env d index (d_items d ! index) itemOutput e)]\<rparr>))
      else s)"

text \<open>
  What can happen during the run: some task runs to its next suspension point, or the
  caller's abort signal fires (lines 286-288). A schedule is any list of such events; the
  queue chooses one of them, so a property of every schedule is a property of every run.
\<close>

datatype event = Step nat | Signal

fun apply_event :: "env \<Rightarrow> dispatch \<Rightarrow> event \<Rightarrow> iterState \<Rightarrow> iterState" where
  "apply_event env d (Step index) s = task_step env d index s"
| "apply_event env d Signal s = s\<lparr>abortIteration := True\<rparr>"

definition run :: "env \<Rightarrow> dispatch \<Rightarrow> event list \<Rightarrow> iterState \<Rightarrow> iterState" where
  "run env d evs s = fold (apply_event env d) evs s"

text \<open>Lines 285 and 376-378: the state in which the tasks are queued.\<close>

definition init_state :: "dispatch \<Rightarrow> cacheEntry \<Rightarrow> iterState" where
  "init_state d cacheStorage =
     \<lparr>abortIteration = False,
      cacheMap = cache cacheStorage,
      tasks = replicate (length (d_items d)) Pending,
      invoked = []\<rparr>"

fun is_Finished :: "phase \<Rightarrow> bool" where
  "is_Finished (Finished v) = True"
| "is_Finished ph = False"

fun output_of :: "phase \<Rightarrow> jsval" where
  "output_of (Finished v) = v"
| "output_of ph = JUndefined"

text \<open>\<^verbatim>\<open>Promise.all\<close> (line 459): the outputs of the tasks, in the order of the items.\<close>

definition iteratorOutputs :: "iterState \<Rightarrow> jsval list" where
  "iteratorOutputs s = map output_of (tasks s)"

section \<open>Aggregation\<close>

text \<open>\<^verbatim>\<open>f[outputs]?.type == "control-flow-excluded"\<close> (lines 471-474 and 483-487).\<close>

definition is_excluded :: "jsval \<Rightarrow> js_error + bool" where
  "is_excluded f =
     bind_e (get_prop f ''outputs'')
       (\<lambda>p. Inr (loose_eq_str (opt_prop p ''type'') ''control-flow-excluded''))"

text \<open>Lines 488-491: one part of the aggregated message; \<open>i\<close> is the callback's index.\<close>

definition error_part :: "jsval \<Rightarrow> nat \<Rightarrow> string" where
  "error_part m i =
     ''ItemIndex: '' @ string_of_nat i @ '':: '' @ ToString (opt_prop (js_prop m ''error'') ''value'')"

text \<open>Lines 471-502.\<close>

definition aggregate :: "jsval list \<Rightarrow> js_error + jsval" where
  "aggregate outs =
     bind_e (some_e is_excluded outs) (\<lambda>errorInIteratorOutputs.
       if errorInIteratorOutputs
       then bind_e (filter_e is_excluded outs) (\<lambda>fs.
              Inr (JObj [(''iteratorOutputs'', excluded),
                         (''error'', string_value
                            (join ''; '' (map (\<lambda>(m, i). error_part m i)
                                           (zip fs [0..<length fs]))))]))
       else Inr (JObj [(''iteratorOutputs'',
                        JObj [(''type'', JStr ''object[]''), (''value'', JArr outs)])]))"

text \<open>
  The whole of \<^verbatim>\<open>process\<close>: \<open>None\<close> while the schedule has not finished every task (the
  function is still waiting at line 459), otherwise the store and what the function
  returns or throws. \<open>now'\<close> is the clock read by \<^verbatim>\<open>cleanExpiredCache\<close>.
\<close>

definition process ::
  "env \<Rightarrow> nodeData \<Rightarrow> inputs \<Rightarrow> storage \<Rightarrow> int \<Rightarrow> int \<Rightarrow> event list
     \<Rightarrow> (storage \<times> (js_error + jsval)) option" where
  "process env data inp st now now' evs =
     (case process_validating env data inp st now of
        (st', Thrown e) \<Rightarrow> Some (st', Inl e)
      | (st', Returned out) \<Rightarrow> Some (st', Inr out)
      | (st', Dispatched d cacheStorage) \<Rightarrow>
          let s = run env d evs (init_state d cacheStorage) in
            if list_all is_Finished (tasks s)
            then Some
              (if d_hasCache d
               then cleanExpiredCache
                      (st'(nodeId data \<mapsto> cacheStorage\<lparr>cache := cacheMap s\<rparr>)) now'
               else st',
               aggregate (iteratorOutputs s))
            else None)"

section \<open>Progress and success of a run\<close>

text \<open>How far a task has come: every run of a task that is not finished moves it on.\<close>

fun rank :: "phase \<Rightarrow> nat" where
  "rank Pending = 0"
| "rank AwaitKey = 1"
| "rank AwaitProcess = 2"
| "rank (AwaitStoreKey out) = 3"
| "rank (Finished v) = 4"

text \<open>
  The subgraph invocation of item \<open>i\<close> succeeds: the call returns, and its outputs port is
  not the control-flow-excluded marker that line 471 reads as a failure.
\<close>

definition invocation_succeeds :: "env \<Rightarrow> dispatch \<Rightarrow> nat \<Rightarrow> bool" where
  "invocation_succeeds env d i \<longleftrightarrow>
     (case invoke env i (iteratorInputData d (d_items d ! i)) of
        Inl e \<Rightarrow> False
      | Inr out \<Rightarrow> is_excluded (JObj out) = Inr False)"

text \<open>
  The compressed text \<open>c\<close> can be found under the key \<open>k\<close> during the invocation: it was
  in the reconciled entry, or it is the compressed result of an item of this batch with
  that key.
\<close>

definition cached :: "env \<Rightarrow> dispatch \<Rightarrow> cacheEntry \<Rightarrow> string \<Rightarrow> string \<Rightarrow> bool" where
  "cached env d entry k c \<longleftrightarrow>
     cache entry k = Some c
     \<or> (\<exists>j<length (d_items d). cacheKey env d (d_items d ! j) = k
          \<and> (case invoke env j (iteratorInputData d (d_items d ! j)) of
                Inl e \<Rightarrow> False
              | Inr out \<Rightarrow> compressObject env (JObj out) = Inr c))"

text \<open>
  \<open>v\<close> is a result of item \<open>i\<close>: the outputs of its own invocation, or, with caching on,
  the decoded text cached under the item's own key.
\<close>

definition item_result :: "env \<Rightarrow> dispatch \<Rightarrow> cacheEntry \<Rightarrow> nat \<Rightarrow> jsval \<Rightarrow> bool" where
  "item_result env d entry i v \<longleftrightarrow>
     (\<exists>out. invoke env i (iteratorInputData d (d_items d ! i)) = Inr out \<and> v = JObj out)
     \<or> (d_hasCache d
         \<and> (\<exists>c. c \<noteq> [] \<and> cached env d entry (cacheKey env d (d_items d ! i)) c
               \<and> decompressObject env c = Inr v))"

text \<open>
  No step of the cache codec fails: every result of an invocation can be compressed, and
  every text a task can find under its key decodes to outputs that are not marked excluded.
\<close>

definition codec_succeeds :: "env \<Rightarrow> dispatch \<Rightarrow> cacheEntry \<Rightarrow> bool" where
  "codec_succeeds env d entry \<longleftrightarrow>
     (\<forall>i<length (d_items d).
        case invoke env i (iteratorInputData d (d_items d ! i)) of
          Inl e \<Rightarrow> True
        | Inr out \<Rightarrow> (\<exists>c. compressObject env (JObj out) = Inr c))
     \<and> (\<forall>i<length (d_items d). \<forall>c.
          c \<noteq> [] \<and> cached env d entry (cacheKey env d (d_items d ! i)) c \<longrightarrow>
            (\<exists>v. decompressObject env c = Inr v \<and> is_excluded v = Inr False))"

text \<open>The invariant of a run in which nothing fails and the abort signal does not fire.\<close>

definition phase_ok :: "env \<Rightarrow> dispatch \<Rightarrow> cacheEntry \<Rightarrow> nat \<Rightarrow> phase \<Rightarrow> bool" where
  "phase_ok env d entry i ph \<longleftrightarrow>
     (case ph of
        Pending \<Rightarrow> True
      | AwaitKey \<Rightarrow> d_hasCache d
      | AwaitProcess \<Rightarrow> True
      | AwaitStoreKey out \<Rightarrow>
          d_hasCache d \<and> invoke env i (iteratorInputData d (d_items d ! i)) = Inr out
      | Finished v \<Rightarrow> item_result env d entry i v \<and> is_excluded v = Inr False)"

definition run_inv :: "env \<Rightarrow> dispatch \<Rightarrow> cacheEntry \<Rightarrow> iterState \<Rightarrow> bool" where
  "run_inv env d entry s \<longleftrightarrow>
     length (tasks s) = length (d_items d)
     \<and> \<not> abortIteration s
     \<and> (\<forall>k c. cacheMap s k = Some c \<longrightarrow> cached env d entry k c)
     \<and> (\<forall>i<length (d_items d). phase_ok env d entry i (tasks s ! i))"

section \<open>Test doubles\<close>

text \<open>
  A stub environment for running the definitions on concrete inputs: a printer in the style
  of JSON (texts and keys unquoted), a parser that knows the texts of the values \<open>known\<close>, a
  compressor that appends a blank and fails when \<open>broken\<close>, a digest that prefixes a hash
  sign, predicates after Rivet's helpers, and a subgraph that fails for the indexes in
  \<open>failing\<close> and otherwise answers with the index of the item.
\<close>

fun stub_text :: "jsval \<Rightarrow> string" where
  "stub_text JUndefined = ''null''"
| "stub_text JNull = ''null''"
| "stub_text (JBool b) = (if b then ''true'' else ''false'')"
| "stub_text (JNum n) = ToString (JNum n)"
| "stub_text (JStr s) = s"
| "stub_text (JArr xs) = ''['' @ join '','' (map stub_text xs) @ '']''"
| "stub_text (JObj kvs) =
     ''{'' @ join '','' (map (\<lambda>kv. fst kv @ '':'' @ stub_text (snd kv)) kvs) @ ''}''"

declare stub_text.simps [simp del]

definition stub_outputs :: "nat \<Rightarrow> (string \<times> jsval) list" where
  "stub_outputs i = [(''outputs'', JObj [(''type'', JStr ''object''), (''value'', JNum (int i))])]"

definition stub_env :: "nat list \<Rightarrow> bool \<Rightarrow> jsval list \<Rightarrow> env" where
  "stub_env failing broken known =
     \<lparr>JSON_stringify = stub_text,
      JSON_parse = (\<lambda>s. case find (\<lambda>v. stub_text v = s) known of
                           Some v \<Rightarrow> Inr v
                         | None \<Rightarrow> Inl (SyntaxError ''Unexpected token'')),
      compressToUTF16 = (\<lambda>s. if broken then Inl (JsError ''Invalid string length'')
                              else Inr (s @ '' '')),
      decompressFromUTF16 = (\<lambda>c. Inr (if c = [] then None else Some (butlast c))),
      sha256 = (\<lambda>s. ''#'' @ s),
      isScalarDataType = (\<lambda>t. case t of
                            JStr s \<Rightarrow> Inr (s \<in> set [''string'', ''number'', ''boolean'', ''object'', ''any''])
                          | _ \<Rightarrow> Inl (TypeError ''type.endsWith is not a function'')),
      isArrayDataType = (\<lambda>t. case t of
                            JStr s \<Rightarrow> Inr (drop (length s - 2) s = ''[]'')
                          | _ \<Rightarrow> Inl (TypeError ''type.endsWith is not a function'')),
      isFunctionDataType = (\<lambda>t. case t of
                            JStr s \<Rightarrow> Inr (take 3 s = ''fn<'')
                          | _ \<Rightarrow> Inl (TypeError ''type.startsWith is not a function'')),
      dedent = (\<lambda>s. s),
      invoke = (\<lambda>i inp. if i \<in> set failing then Inl (JsError ''boom'')
                         else Inr (stub_outputs i))\<rparr>"

text \<open>A subgraph with the input ports \<open>x\<close> and \<open>y\<close>, and items that satisfy it.\<close>

definition stub_nodes :: "chartNode list" where
  "stub_nodes =
     [\<lparr>node_type = ''graphInput'', node_data = [(''id'', JStr ''x''), (''dataType'', JStr ''number'')]\<rparr>,
      \<lparr>node_type = ''graphInput'', node_data = [(''id'', JStr ''y''), (''dataType'', JStr ''number'')]\<rparr>,
      \<lparr>node_type = ''text'', node_data = [(''text'', JStr ''hello'')]\<rparr>]"

definition number_value :: "int \<Rightarrow> jsval" where
  "number_value n = JObj [(''type'', JStr ''number''), (''value'', JNum n)]"

definition stub_item :: "int \<Rightarrow> jsval" where
  "stub_item n = JObj [(''x'', number_value n), (''y'', number_value (n + 1))]"

definition stub_inputs :: "jsval list \<Rightarrow> inputs" where
  "stub_inputs items =
     \<lparr>graphInput = JObj [(''type'', JStr ''graph-reference''), (''value'', JStr ''g1'')],
      graphName = ''Sub'',
      iteratorInputs = items,
      chunkSizeInput = None,
      graph = Some stub_nodes\<rparr>"

definition stub_data :: "bool \<Rightarrow> nodeData" where
  "stub_data caching = \<lparr>chunkSize = 2, hasCache = caching, nodeId = Some ''node-1''\<rparr>"

definition stub_dispatch :: "jsval list \<Rightarrow> bool \<Rightarrow> dispatch" where
  "stub_dispatch items caching =
     \<lparr>d_items = items, d_hasCache = caching,
      d_graphInput = JObj [(''type'', JStr ''graph-reference''), (''value'', JStr ''g1'')],
      d_graphName = ''Sub''\<rparr>"

text \<open>A stored entry that was filled under an older snapshot of the subgraph.\<close>

definition stale_entry :: cacheEntry where
  "stale_entry =
     \<lparr>cache = [''k1'' \<mapsto> ''v1''], expiryTimestamp = 5000, graphSnapshot = Some ''old''\<rparr>"

text \<open>
  The batch of the specification's validation example: item 0 lacks the field \<open>x\<close>, item 2
  has a value for \<open>y\<close> that is not a tagged data value.
\<close>

definition spec_batch :: "jsval list" where
  "spec_batch =
     [JObj [(''y'', number_value 1)],
      stub_item 2,
      JObj [(''y'', JNum 5), (''x'', number_value 3)]]"

definition stub_batch :: "jsval list" where
  "stub_batch = [stub_item 1, stub_item 5, stub_item 7]"

definition fresh_entry :: cacheEntry where
  "fresh_entry = \<lparr>cache = Map.empty, expiryTimestamp = 4600, graphSnapshot = Some ''snap''\<rparr>"

section \<open>The stub environment at work\<close>

lemma stub_dispatch_simps [simp]:
  "d_items (stub_dispatch items caching) = items"
  "d_hasCache (stub_dispatch items caching) = caching"
  "d_graphName (stub_dispatch items caching) = ''Sub''"
  by (simp_all add: stub_dispatch_def)

lemma stub_snapshot:
  "graph_snapshot (stub_env f b k) stub_nodes
     = ''#[{id:x,dataType:number},{id:y,dataType:number},{text:hello}]''"
  by (simp add: graph_snapshot_def stub_env_def stub_nodes_def stub_text.simps)

lemma expectedKeys_stub: "expectedKeys stub_nodes = [JStr ''x'', JStr ''y'']"
  by (simp add: expectedKeys_def stub_nodes_def)

lemma stub_item_valid:
  "validateInputItem (stub_env f b k) (stub_item n) stub_nodes pr = Inr (False, pr)"
  by (simp add: validateInputItem_def stub_env_def expectedKeys_stub stub_item_def number_value_def
      bind_e_def isObjectDataValue_def isAnyDataValue_def)

lemma typeof_stub_item: "typeof (stub_item n) = ''object''"
  by (simp add: stub_item_def)

lemma stub_process_validating:
  "process_validating (stub_env f b k) (stub_data True) (stub_inputs [stub_item 1, stub_item 5])
      [Some ''node-1'' \<mapsto> stale_entry] 1000
   = ([Some ''node-1'' \<mapsto> stale_entry\<lparr>cache := Map.empty,
          graphSnapshot := Some ''#[{id:x,dataType:number},{id:y,dataType:number},{text:hello}]''\<rparr>],
      Dispatched (stub_dispatch [stub_item 1, stub_item 5] True)
        (stale_entry\<lparr>cache := Map.empty,
          graphSnapshot := Some ''#[{id:x,dataType:number},{id:y,dataType:number},{text:hello}]''\<rparr>))"
  by (simp add: process_validating_def stub_snapshot stub_inputs_def stub_data_def Let_def
      stub_item_valid get_cacheStorage_def invalideCacheIfChanges_def stale_entry_def stub_dispatch_def
      typeof_stub_item)

lemma stub_validating:
  assumes "\<forall>item\<in>set items. \<exists>n. item = stub_item n"
  shows "process_validating (stub_env f b k) (stub_data caching) (stub_inputs items) Map.empty 1000
   = (Map.empty,
      Dispatched (stub_dispatch items caching)
        \<lparr>cache = Map.empty, expiryTimestamp = 4600,
         graphSnapshot = Some ''#[{id:x,dataType:number},{id:y,dataType:number},{text:hello}]''\<rparr>)"
proof -
  from assms have shape: "\<not> list_ex (\<lambda>s. typeof s \<noteq> ''object'') items"
    by (auto simp: list_ex_iff typeof_stub_item)
  from assms have valid: "invalidInputs (stub_env f b k) items stub_nodes pr = Inr (False, pr)" for pr
    by (induction items) (auto simp: stub_item_valid)
  show ?thesis
    using shape
    by (simp add: process_validating_def stub_inputs_def stub_data_def Let_def valid
        stub_snapshot get_cacheStorage_def invalideCacheIfChanges_def stub_dispatch_def)
qed

lemma stub_invoke:
  "invoke (stub_env failing b k) i inp =
     (if i \<in> set failing then Inl (JsError ''boom'') else Inr (stub_outputs i))"
  by (simp add: stub_env_def)

lemma stub_stringify_items:
  "stringify (stub_env f b k) (stub_item 1) = Some ''{x:{type:number,value:1},y:{type:number,value:2}}''"
  "stringify (stub_env f b k) (stub_item 5) = Some ''{x:{type:number,value:5},y:{type:number,value:6}}''"
  by (simp_all add: stringify_def stub_env_def stub_item_def number_value_def string_of_nat.simps
      stub_text.simps)

lemma stub_text_outputs:
  "stub_text (JObj (stub_outputs 0)) = ''{outputs:{type:object,value:0}}''"
  "stub_text (JObj (stub_outputs (Suc 0))) = ''{outputs:{type:object,value:1}}''"
  by (simp_all add: stub_outputs_def string_of_nat.simps stub_text.simps)

lemma stub_compress:
  "compressObject (stub_env f False k) (JObj out) = Inr (stub_text (JObj out) @ '' '')"
  by (simp add: compressObject_def stringify_def stub_env_def)

lemma stub_compress_broken:
  "compressObject (stub_env f True k) (JObj out) = Inl (JsError ''Invalid string length'')"
  by (simp add: compressObject_def stringify_def stub_env_def)

lemma stub_decompress:
  "decompressObject (stub_env f b [JObj (stub_outputs 0), JObj (stub_outputs 1)])
      (stub_text (JObj (stub_outputs 0)) @ '' '') = Inr (JObj (stub_outputs 0))"
  "decompressObject (stub_env f b [JObj (stub_outputs 0), JObj (stub_outputs 1)])
      (stub_text (JObj (stub_outputs (Suc 0))) @ '' '') = Inr (JObj (stub_outputs 1))"
  by (simp_all add: decompressObject_def stub_env_def stub_text_outputs)

lemma stub_decompress_garbage:
  "decompressObject (stub_env f b []) ''garbage'' = Inl (SyntaxError ''Unexpected token'')"
  by (simp add: decompressObject_def stub_env_def)

section \<open>What process returns\<close>

lemma process_Thrown:
  "snd (process_validating env data inp st now) = Thrown e \<Longrightarrow>
     map_option snd (process env data inp st now now' evs) = Some (Inl e)"
  by (cases "process_validating env data inp st now") (simp add: process_def)

lemma process_Returned:
  "snd (process_validating env data inp st now) = Returned out \<Longrightarrow>
     map_option snd (process env data inp st now now' evs) = Some (Inr out)"
  by (cases "process_validating env data inp st now") (simp add: process_def)

lemma process_Dispatched:
  assumes "process_validating env data inp st now = (st', Dispatched d entry)"
    and "list_all is_Finished (tasks (run env d evs (init_state d entry)))"
  shows "map_option snd (process env data inp st now now' evs)
           = Some (aggregate (iteratorOutputs (run env d evs (init_state d entry))))"
  using assms by (simp add: process_def Let_def)

lemma process_validating_Dispatched:
  assumes "process_validating env data inp st now = (st', Dispatched d entry)"
  shows "\<exists>nodes. graph inp = Some nodes
           \<and> entry = invalideCacheIfChanges
                (get_cacheStorage st (nodeId data) now (graph_snapshot env nodes))
                (graph_snapshot env nodes)
           \<and> d_items d = iteratorInputs inp"
  using assms
  by (auto simp: process_validating_def Let_def split: if_splits option.splits sum.splits prod.splits)

section \<open>Validation\<close>

lemma validate_missing_x:
  "validateInputItem env (JObj [(''y'', number_value 1)]) stub_nodes pr
     = Inr (True, pr\<lparr>missingKeys := Set_add (JStr ''x'') (missingKeys pr)\<rparr>)"
  by (simp add: validateInputItem_def expectedKeys_stub bind_e_def isObjectDataValue_def)

lemma validate_untagged_y:
  "validateInputItem env (JObj [(''y'', JNum 5), (''x'', number_value 3)]) stub_nodes pr
     = Inr (True, pr\<lparr>notDataValue := Set_add (JNum 5) (notDataValue pr)\<rparr>)"
  by (simp add: validateInputItem_def expectedKeys_stub bind_e_def isObjectDataValue_def
      isAnyDataValue_def)

text \<open>
  Claim C1. The validation phase should report the union of the problems of all items of
  the batch. On the specification's own example (item 0 lacks \<open>x\<close>, item 2 has an untagged
  value 5 for \<open>y\<close>) the source stops at item 0: \<^verbatim>\<open>iteratorInputs.some\<close> ends at the first
  item the validator reports, so the two sets hold only the missing key \<open>x\<close>, the value 5
  that item 2 alone would contribute is not in them, and the message \<^verbatim>\<open>process\<close> returns
  names \<open>x\<close> only. This holds in every environment, store and schedule.
\<close>

theorem validation_stops_at_first_failing_item:
  "invalidInputs env spec_batch stub_nodes \<lparr>missingKeys = [], notDataValue = []\<rparr>
     = Inr (True, \<lparr>missingKeys = [JStr ''x''], notDataValue = []\<rparr>)
   \<and> invalidInputs env [spec_batch ! 2] stub_nodes \<lparr>missingKeys = [], notDataValue = []\<rparr>
     = Inr (True, \<lparr>missingKeys = [], notDataValue = [JNum 5]\<rparr>)
   \<and> map_option snd (process env data (stub_inputs spec_batch) st now now' evs)
     = Some (Inr (validation_rejection env \<lparr>missingKeys = [JStr ''x''], notDataValue = []\<rparr>))
   \<and> errorMessage env \<lparr>missingKeys = [JStr ''x''], notDataValue = []\<rparr>
     = ''Input validation error::Missing keys required for graph: \<newline>            x''"
proof -
  have a: "invalidInputs env spec_batch stub_nodes \<lparr>missingKeys = [], notDataValue = []\<rparr>
     = Inr (True, \<lparr>missingKeys = [JStr ''x''], notDataValue = []\<rparr>)"
    by (simp add: spec_batch_def validate_missing_x Set_add_def)
  have b: "invalidInputs env [spec_batch ! 2] stub_nodes \<lparr>missingKeys = [], notDataValue = []\<rparr>
     = Inr (True, \<lparr>missingKeys = [], notDataValue = [JNum 5]\<rparr>)"
    by (simp add: spec_batch_def validate_untagged_y Set_add_def)
  have t: "\<not> list_ex (\<lambda>s. typeof s \<noteq> ''object'') spec_batch"
    by (simp add: spec_batch_def stub_item_def)
  have "snd (process_validating env data (stub_inputs spec_batch) st now)
     = Returned (validation_rejection env \<lparr>missingKeys = [JStr ''x''], notDataValue = []\<rparr>)"
    using t by (simp add: process_validating_def stub_inputs_def a Let_def)
  then have c: "map_option snd (process env data (stub_inputs spec_batch) st now now' evs)
     = Some (Inr (validation_rejection env \<lparr>missingKeys = [JStr ''x''], notDataValue = []\<rparr>))"
    by (rule process_Returned)
  have d: "errorMessage env \<lparr>missingKeys = [JStr ''x''], notDataValue = []\<rparr>
     = ''Input validation error::Missing keys required for graph: \<newline>            x''"
    by (simp add: errorMessage_def array_join_def)
  from a b c d show ?thesis by blast
qed

lemma invalidInputs_append:
  "invalidInputs env (xs @ ys) nodes pr =
     (case invalidInputs env xs nodes pr of
        Inl e \<Rightarrow> Inl e
      | Inr (invalid, pr') \<Rightarrow> if invalid then Inr (True, pr') else invalidInputs env ys nodes pr')"
  by (induction xs arbitrary: pr) (auto split: sum.splits prod.splits)

lemma validateInputItem_null:
  "validateInputItem env JNull nodes pr
     = Inl (TypeError ''Cannot convert undefined or null to object'')"
  by (simp add: validateInputItem_def bind_e_def)

text \<open>
  Claim C10, as amended. If every element of the batch has \<^verbatim>\<open>typeof\<close> \<^verbatim>\<open>"object"\<close> (so
  the shape rejection does not trigger), the batch contains a null element, the referenced
  graph exists, and validation finds nothing wrong with the items before that null, then
  \<^verbatim>\<open>process\<close> ends with the TypeError of \<^verbatim>\<open>Object.keys(null)\<close> instead of returning
  outputs, whatever the schedule.
\<close>

theorem null_item_throws:
  assumes "iteratorInputs inp = pre @ JNull # post"
    and "list_all (\<lambda>s. typeof s = ''object'') (iteratorInputs inp)"
    and "graph inp = Some nodes"
    and "invalidInputs env pre nodes \<lparr>missingKeys = [], notDataValue = []\<rparr> = Inr (False, pr)"
  shows "map_option snd (process env data inp st now now' evs)
           = Some (Inl (TypeError ''Cannot convert undefined or null to object''))"
proof -
  have shape: "\<not> list_ex (\<lambda>s. typeof s \<noteq> ''object'') (iteratorInputs inp)"
    using assms(2) by (simp add: list_all_iff list_ex_iff)
  have "invalidInputs env (iteratorInputs inp) nodes \<lparr>missingKeys = [], notDataValue = []\<rparr>
          = Inl (TypeError ''Cannot convert undefined or null to object'')"
    by (simp add: assms(1) assms(4) invalidInputs_append validateInputItem_null)
  with shape assms(3)
  have "snd (process_validating env data inp st now)
          = Thrown (TypeError ''Cannot convert undefined or null to object'')"
    by (simp add: process_validating_def Let_def)
  then show ?thesis by (rule process_Thrown)
qed

theorem null_item_throws_witness:
  "map_option snd (process (stub_env [] False []) (stub_data False)
          (stub_inputs [stub_item 1, JNull, stub_item 2]) Map.empty 1000 1001 [])
     = Some (Inl (TypeError ''Cannot convert undefined or null to object''))"
  using null_item_throws [of "stub_inputs [stub_item 1, JNull, stub_item 2]" "[stub_item 1]"
      "[stub_item 2]" stub_nodes "stub_env [] False []" "\<lparr>missingKeys = [], notDataValue = []\<rparr>"
      "stub_data False" Map.empty 1000 1001 "[]"]
  by (simp add: stub_inputs_def typeof_stub_item stub_item_valid)

text \<open>
  The claim as stated, for every batch that contains a null element, fails twice: with a
  non-object beside the null the shape rejection does trigger, and with an invalid item
  before the null the validation error is returned; in both cases \<^verbatim>\<open>process\<close> returns
  outputs and throws nothing.
\<close>

theorem null_item_counterexample:
  "JNull \<in> set [JNum 5, JNull]
   \<and> map_option snd (process (stub_env [] False []) (stub_data False)
            (stub_inputs [JNum 5, JNull]) Map.empty 1000 1001 [])
       = Some (Inr (shape_rejection (stub_env [] False [])))
   \<and> JNull \<in> set [JObj [(''y'', number_value 1)], JNull]
   \<and> list_all (\<lambda>s. typeof s = ''object'') [JObj [(''y'', number_value 1)], JNull]
   \<and> map_option snd (process (stub_env [] False []) (stub_data False)
            (stub_inputs [JObj [(''y'', number_value 1)], JNull]) Map.empty 1000 1001 [])
       = Some (Inr (validation_rejection (stub_env [] False [])
            \<lparr>missingKeys = [JStr ''x''], notDataValue = []\<rparr>))"
proof -
  have "snd (process_validating (stub_env [] False []) (stub_data False)
            (stub_inputs [JNum 5, JNull]) Map.empty 1000)
       = Returned (shape_rejection (stub_env [] False []))"
    by (simp add: process_validating_def stub_inputs_def)
  then have a: "map_option snd (process (stub_env [] False []) (stub_data False)
            (stub_inputs [JNum 5, JNull]) Map.empty 1000 1001 [])
       = Some (Inr (shape_rejection (stub_env [] False [])))"
    by (rule process_Returned)
  have "snd (process_validating (stub_env [] False []) (stub_data False)
            (stub_inputs [JObj [(''y'', number_value 1)], JNull]) Map.empty 1000)
       = Returned (validation_rejection (stub_env [] False [])
            \<lparr>missingKeys = [JStr ''x''], notDataValue = []\<rparr>)"
    by (simp add: process_validating_def stub_inputs_def Let_def validate_missing_x Set_add_def)
  then have b: "map_option snd (process (stub_env [] False []) (stub_data False)
            (stub_inputs [JObj [(''y'', number_value 1)], JNull]) Map.empty 1000 1001 [])
       = Some (Inr (validation_rejection (stub_env [] False [])
            \<lparr>missingKeys = [JStr ''x''], notDataValue = []\<rparr>))"
    by (rule process_Returned)
  from a b show ?thesis by simp
qed

section \<open>The cache store: creation and reconciliation\<close>

text \<open>
  Claim C2. When the store has no entry for the node's key, the entry created for it has an
  empty cache and should expire one hour after the current time. The source adds
  \<^verbatim>\<open>1 * 60 * 60\<close> to \<^verbatim>\<open>Date.now()\<close>, which counts milliseconds: the new entry's cache
  is empty, but its expiry is 3600 milliseconds after \<open>now\<close>, never one hour after it.
\<close>

theorem created_entry_expiry:
  "st nid = None \<Longrightarrow>
     cache (get_cacheStorage st nid now snapshot) = Map.empty
     \<and> expiryTimestamp (get_cacheStorage st nid now snapshot) = now + 3600
     \<and> expiryTimestamp (get_cacheStorage st nid now snapshot) \<noteq> now + one_hour_ms"
  by (simp add: get_cacheStorage_def one_hour_ms_def)

theorem created_entry_expiry_witness:
  "cache (get_cacheStorage Map.empty (Some ''node-1'') 1000 ''abc'') = Map.empty
     \<and> expiryTimestamp (get_cacheStorage Map.empty (Some ''node-1'') 1000 ''abc'') = 4600
     \<and> expiryTimestamp (get_cacheStorage Map.empty (Some ''node-1'') 1000 ''abc'') \<noteq> 3601000"
  using created_entry_expiry [of Map.empty "Some ''node-1''" 1000 "''abc''"]
  by (simp add: one_hour_ms_def)

lemma init_state_all_pending: "list_all (\<lambda>ph. ph = Pending) (tasks (init_state d entry))"
  by (simp add: init_state_def list_all_iff)

text \<open>
  Claim C5. If the entry's stored snapshot differs from the current one, the entry's cache
  is cleared and its snapshot replaced; if they are equal the cache is unchanged. This
  happens before any lookup or insert of the invocation: whenever \<^verbatim>\<open>process\<close> gets as far
  as queueing the tasks, the entry they share is the reconciled one, and in the state they
  are queued in every task is still pending and the subgraph has not been called.
\<close>

theorem snapshot_change_clears_cache_before_use:
  "(graphSnapshot e \<noteq> Some snapshot \<longrightarrow>
      cache (invalideCacheIfChanges e snapshot) = Map.empty
      \<and> graphSnapshot (invalideCacheIfChanges e snapshot) = Some snapshot)
   \<and> (graphSnapshot e = Some snapshot \<longrightarrow>
      cache (invalideCacheIfChanges e snapshot) = cache e)
   \<and> (process_validating env data inp st now = (st', Dispatched d entry) \<longrightarrow>
      (\<exists>nodes. graph inp = Some nodes
         \<and> entry = invalideCacheIfChanges
              (get_cacheStorage st (nodeId data) now (graph_snapshot env nodes))
              (graph_snapshot env nodes))
      \<and> cacheMap (init_state d entry) = cache entry
      \<and> list_all (\<lambda>ph. ph = Pending) (tasks (init_state d entry))
      \<and> invoked (init_state d entry) = [])"
proof (intro conjI impI)
  assume "process_validating env data inp st now = (st', Dispatched d entry)"
  from process_validating_Dispatched [OF this]
  show "\<exists>nodes. graph inp = Some nodes
         \<and> entry = invalideCacheIfChanges
              (get_cacheStorage st (nodeId data) now (graph_snapshot env nodes))
              (graph_snapshot env nodes)"
    by blast
qed (simp_all add: invalideCacheIfChanges_def init_state_all_pending, simp_all add: init_state_def)

theorem snapshot_change_clears_cache_before_use_witness:
  "cache (invalideCacheIfChanges stale_entry ''new'') = Map.empty
   \<and> graphSnapshot (invalideCacheIfChanges stale_entry ''new'') = Some ''new''
   \<and> cache (invalideCacheIfChanges stale_entry ''old'') = cache stale_entry
   \<and> cacheMap (init_state (stub_dispatch [stub_item 1, stub_item 5] True)
        (stale_entry\<lparr>cache := Map.empty,
          graphSnapshot := Some ''#[{id:x,dataType:number},{id:y,dataType:number},{text:hello}]''\<rparr>))
       = Map.empty"
  using snapshot_change_clears_cache_before_use [of stale_entry "''new''"]
    snapshot_change_clears_cache_before_use [of stale_entry "''old''" "stub_env [] False []"
      "stub_data True" "stub_inputs [stub_item 1, stub_item 5]"
      "[Some ''node-1'' \<mapsto> stale_entry]" 1000
      "[Some ''node-1'' \<mapsto> stale_entry\<lparr>cache := Map.empty,
          graphSnapshot := Some ''#[{id:x,dataType:number},{id:y,dataType:number},{text:hello}]''\<rparr>]"
      "stub_dispatch [stub_item 1, stub_item 5] True"
      "stale_entry\<lparr>cache := Map.empty,
          graphSnapshot := Some ''#[{id:x,dataType:number},{id:y,dataType:number},{text:hello}]''\<rparr>"]
    stub_process_validating [of "[]" False "[]"]
  by (simp add: stale_entry_def)

section \<open>The codec\<close>

text \<open>
  Claim C6. For every value \<open>v\<close> that the JSON serialization represents (it is not
  undefined, its text is not empty and parses back to \<open>v\<close>) and that lz-string carries
  faithfully (decompressing the compressed text gives the text back), decoding the encoding
  of \<open>v\<close> yields \<open>v\<close>: the source's own guard against an empty decompressed text does not
  reject it.
\<close>

theorem decompress_compress_roundtrip:
  assumes "v \<noteq> JUndefined"
    and "JSON_stringify env v \<noteq> []"
    and "JSON_parse env (JSON_stringify env v) = Inr v"
    and "compressToUTF16 env (JSON_stringify env v) = Inr c"
    and "decompressFromUTF16 env c = Inr (Some (JSON_stringify env v))"
  shows "compressObject env v = Inr c \<and> decompressObject env c = Inr v"
  using assms by (simp add: compressObject_def decompressObject_def stringify_def)

theorem decompress_compress_roundtrip_witness:
  "compressObject (stub_env [] False [JObj (stub_outputs 3)]) (JObj (stub_outputs 3))
      = Inr ''{outputs:{type:object,value:3}} ''
   \<and> decompressObject (stub_env [] False [JObj (stub_outputs 3)]) ''{outputs:{type:object,value:3}} ''
      = Inr (JObj (stub_outputs 3))"
  using decompress_compress_roundtrip [of "JObj (stub_outputs 3)"
      "stub_env [] False [JObj (stub_outputs 3)]" "''{outputs:{type:object,value:3}} ''"]
  by (simp add: stub_env_def stub_outputs_def string_of_nat.simps compressObject_def
      decompressObject_def stringify_def stub_text.simps)

section \<open>The steps of a task\<close>

text \<open>One equation for each way a task can run from its current phase.\<close>

lemma task_step_skip:
  assumes "index < length (tasks s)" "index < length (d_items d)"
    and "tasks s ! index = Pending" "abortIteration s"
  shows "task_step env d index s = s\<lparr>tasks := (tasks s)[index := Finished skippedOutput]\<rparr>"
  using assms by (simp add: task_step_def)

lemma task_step_start:
  assumes "index < length (tasks s)" "index < length (d_items d)"
    and "tasks s ! index = Pending" "\<not> abortIteration s"
  shows "task_step env d index s =
     (if d_hasCache d then s\<lparr>tasks := (tasks s)[index := AwaitKey]\<rparr>
      else s\<lparr>tasks := (tasks s)[index := AwaitProcess], invoked := invoked s @ [index]\<rparr>)"
  using assms by (simp add: task_step_def)

lemma task_step_miss:
  assumes "index < length (tasks s)" "index < length (d_items d)"
    and "tasks s ! index = AwaitKey"
    and "cacheMap s (cacheKey env d (d_items d ! index)) = None
         \<or> cacheMap s (cacheKey env d (d_items d ! index)) = Some []"
  shows "task_step env d index s =
     s\<lparr>tasks := (tasks s)[index := AwaitProcess], invoked := invoked s @ [index]\<rparr>"
  using assms by (auto simp: task_step_def)

lemma task_step_hit:
  assumes "index < length (tasks s)" "index < length (d_items d)"
    and "tasks s ! index = AwaitKey"
    and "cacheMap s (cacheKey env d (d_items d ! index)) = Some c" "c \<noteq> []"
  shows "task_step env d index s =
     (case decompressObject env c of
        Inr v \<Rightarrow> s\<lparr>tasks := (tasks s)[index := Finished v]\<rparr>
      | Inl e \<Rightarrow> s\<lparr>abortIteration := True,
                   tasks := (tasks s)
                     [index := Finished (failedOutput env d index (d_items d ! index) [] e)]\<rparr>)"
  using assms by (simp add: task_step_def split: sum.splits)

lemma task_step_process:
  assumes "index < length (tasks s)" "index < length (d_items d)"
    and "tasks s ! index = AwaitProcess"
  shows "task_step env d index s =
     (case invoke env index (iteratorInputData d (d_items d ! index)) of
        Inr itemOutput \<Rightarrow>
          if d_hasCache d then s\<lparr>tasks := (tasks s)[index := AwaitStoreKey itemOutput]\<rparr>
          else s\<lparr>tasks := (tasks s)[index := Finished (JObj itemOutput)]\<rparr>
      | Inl e \<Rightarrow> s\<lparr>abortIteration := True,
                   tasks := (tasks s)
                     [index := Finished (failedOutput env d index (d_items d ! index) [] e)]\<rparr>)"
  using assms by (simp add: task_step_def split: sum.splits)

lemma task_step_store:
  assumes "index < length (tasks s)" "index < length (d_items d)"
    and "tasks s ! index = AwaitStoreKey itemOutput"
  shows "task_step env d index s =
     (case compressObject env (JObj itemOutput) of
        Inr c \<Rightarrow> s\<lparr>cacheMap := (cacheMap s)(cacheKey env d (d_items d ! index) \<mapsto> c),
                   tasks := (tasks s)[index := Finished (JObj itemOutput)]\<rparr>
      | Inl e \<Rightarrow> s\<lparr>abortIteration := True,
                   tasks := (tasks s)
                     [index := Finished (failedOutput env d index (d_items d ! index) itemOutput e)]\<rparr>)"
  using assms by (simp add: task_step_def split: sum.splits)

lemma task_step_finished:
  "tasks s ! index = Finished v \<Longrightarrow> task_step env d index s = s"
  by (simp add: task_step_def)

lemma task_step_throws:
  assumes "index < length (tasks s)" "index < length (d_items d)"
    and "task_segment env d index (d_items d ! index) s (tasks s ! index) = Throws itemOutput e"
  shows "task_step env d index s =
     s\<lparr>abortIteration := True,
       tasks := (tasks s)
         [index := Finished (failedOutput env d index (d_items d ! index) itemOutput e)]\<rparr>"
proof -
  have "\<not> is_Finished (tasks s ! index)"
    using assms(3) by (cases "tasks s ! index") simp_all
  with assms show ?thesis
    by (cases "tasks s ! index") (simp_all add: task_step_def)
qed

lemma run_Nil: "run env d [] s = s"
  by (simp add: run_def)

lemma run_Cons: "run env d (ev # evs) s = run env d evs (apply_event env d ev s)"
  by (simp add: run_def)

text \<open>Steps keep the number of tasks, touch no other task and never unset the abort flag.\<close>

lemma length_tasks_task_step [simp]: "length (tasks (task_step env d j s)) = length (tasks s)"
  by (simp add: task_step_def split: phase.splits segment.splits)

lemma length_tasks_apply_event [simp]:
  "length (tasks (apply_event env d ev s)) = length (tasks s)"
  by (cases ev) simp_all

lemma length_tasks_run [simp]: "length (tasks (run env d evs s)) = length (tasks s)"
  by (induction evs arbitrary: s) (simp_all add: run_Nil run_Cons)

lemma task_step_other:
  "j \<noteq> i \<Longrightarrow> tasks (task_step env d j s) ! i = tasks s ! i"
  by (simp add: task_step_def split: phase.splits segment.splits)

lemma task_step_latch: "abortIteration s \<Longrightarrow> abortIteration (task_step env d j s)"
  by (simp add: task_step_def split: phase.splits segment.splits)

lemma apply_event_latch: "abortIteration s \<Longrightarrow> abortIteration (apply_event env d ev s)"
  by (cases ev) (simp_all add: task_step_latch)

lemma run_latch: "abortIteration s \<Longrightarrow> abortIteration (run env d evs s)"
  by (induction evs arbitrary: s) (simp_all add: run_Nil run_Cons apply_event_latch)

lemma task_step_keeps_finished:
  "tasks s ! i = Finished v \<Longrightarrow> tasks (task_step env d j s) ! i = Finished v"
  by (cases "j = i") (simp_all add: task_step_other task_step_finished)

lemma apply_event_keeps_finished:
  "tasks s ! i = Finished v \<Longrightarrow> tasks (apply_event env d ev s) ! i = Finished v"
  by (cases ev) (simp_all add: task_step_keeps_finished)

lemma run_keeps_finished:
  "tasks s ! i = Finished v \<Longrightarrow> tasks (run env d evs s) ! i = Finished v"
  by (induction evs arbitrary: s) (simp_all add: run_Nil run_Cons apply_event_keeps_finished)

lemma task_segment_in_flight:
  "ph \<noteq> Pending \<Longrightarrow>
     task_segment env d index item (s\<lparr>abortIteration := b\<rparr>) ph = task_segment env d index item s ph"
  by (cases ph) simp_all

lemma task_step_in_flight:
  assumes "tasks s ! index \<noteq> Pending"
  shows "task_step env d index (s\<lparr>abortIteration := True\<rparr>)
           = (task_step env d index s)\<lparr>abortIteration := True\<rparr>"
  using assms
  by (cases "tasks s ! index")
     (simp_all add: task_step_def split: segment.splits option.splits sum.splits)

text \<open>
  Under a set abort flag, a task that has not started is skipped by its first step and
  never calls the subgraph.
\<close>

lemma apply_event_pending_other:
  assumes "ev \<noteq> Step index"
  shows "tasks (apply_event env d ev s) ! index = tasks s ! index"
  using assms by (cases ev) (simp_all add: task_step_other)

lemma run_skips_pending:
  assumes "abortIteration s" "index < length (tasks s)" "index < length (d_items d)"
    and "tasks s ! index = Pending" "Step index \<in> set evs"
  shows "tasks (run env d evs s) ! index = Finished skippedOutput"
  using assms
proof (induction evs arbitrary: s)
  case Nil
  then show ?case by simp
next
  case (Cons ev evs)
  show ?case
  proof (cases "ev = Step index")
    case True
    have "task_step env d index s = s\<lparr>tasks := (tasks s)[index := Finished skippedOutput]\<rparr>"
      using Cons.prems(2,3,4,1) by (rule task_step_skip)
    then have "tasks (apply_event env d ev s) ! index = Finished skippedOutput"
      using True Cons.prems(2) by simp
    then show ?thesis
      by (simp add: run_Cons run_keeps_finished)
  next
    case False
    let ?s' = "apply_event env d ev s"
    have "abortIteration ?s'" using Cons.prems(1) by (rule apply_event_latch)
    moreover have "index < length (tasks ?s')" using Cons.prems(2) by simp
    moreover have "tasks ?s' ! index = Pending"
      using False Cons.prems(4) by (simp add: apply_event_pending_other)
    moreover have "Step index \<in> set evs" using False Cons.prems(5) by auto
    ultimately have "tasks (run env d evs ?s') ! index = Finished skippedOutput"
      using Cons.prems(3) by (intro Cons.IH)
    then show ?thesis by (simp add: run_Cons)
  qed
qed

lemma invoked_task_step:
  "set (invoked (task_step env d j s)) \<subseteq> insert j (set (invoked s))"
proof (cases "j < length (tasks s) \<and> j < length (d_items d)")
  case False
  then have "task_step env d j s = s" by (auto simp: task_step_def)
  then show ?thesis by auto
next
  case True
  then show ?thesis
    by (cases "tasks s ! j")
       (auto simp: task_step_def split: option.splits sum.splits)
qed

lemma never_invoked_step:
  assumes "abortIteration s" "index \<notin> set (invoked s)"
    and "tasks s ! index = Pending \<or> is_Finished (tasks s ! index)"
  shows "abortIteration (apply_event env d ev s)
     \<and> index \<notin> set (invoked (apply_event env d ev s))
     \<and> (tasks (apply_event env d ev s) ! index = Pending
        \<or> is_Finished (tasks (apply_event env d ev s) ! index))"
proof (cases "ev = Step index")
  case False
  have "index \<notin> set (invoked (apply_event env d ev s))"
  proof (cases ev)
    case (Step j)
    with False have "j \<noteq> index" by simp
    with invoked_task_step [of env d j s] assms(2) Step show ?thesis by auto
  next
    case Signal
    with assms(2) show ?thesis by simp
  qed
  with False assms show ?thesis
    by (simp add: apply_event_latch apply_event_pending_other)
next
  case True
  show ?thesis
  proof (cases "index < length (tasks s) \<and> index < length (d_items d)")
    case False
    then have "task_step env d index s = s" by (auto simp: task_step_def)
    with True assms show ?thesis by simp
  next
    case valid: True
    from assms(3) show ?thesis
    proof
      assume p: "tasks s ! index = Pending"
      have "task_step env d index s = s\<lparr>tasks := (tasks s)[index := Finished skippedOutput]\<rparr>"
        using valid p assms(1) by (intro task_step_skip) simp_all
      with True assms valid show ?thesis by simp
    next
      assume "is_Finished (tasks s ! index)"
      then obtain v where "tasks s ! index = Finished v"
        by (cases "tasks s ! index") simp_all
      then have "task_step env d index s = s" by (rule task_step_finished)
      with True assms show ?thesis by simp
    qed
  qed
qed

lemma run_never_invokes_pending:
  assumes "abortIteration s" "index \<notin> set (invoked s)"
    and "tasks s ! index = Pending \<or> is_Finished (tasks s ! index)"
  shows "index \<notin> set (invoked (run env d evs s))"
  using assms
proof (induction evs arbitrary: s)
  case Nil
  then show ?case by (simp add: run_Nil)
next
  case (Cons ev evs)
  from never_invoked_step [OF Cons.prems, of env d ev]
  show ?case by (simp add: run_Cons Cons.IH)
qed

text \<open>Progress: a task is finished after at most four runs of its own.\<close>

lemma is_Finished_rank: "is_Finished ph \<longleftrightarrow> rank ph = 4"
  by (cases ph) simp_all

lemma task_step_rank:
  assumes "i < length (tasks s)" "i < length (d_items d)"
  shows "min 4 (Suc (rank (tasks s ! i))) \<le> rank (tasks (task_step env d i s) ! i)"
  using assms
  by (cases "tasks s ! i")
     (auto simp: task_step_def split: segment.splits option.splits sum.splits if_splits)

lemma apply_event_rank:
  assumes "i < length (tasks s)" "i < length (d_items d)"
  shows "min 4 (rank (tasks s ! i) + (if ev = Step i then 1 else 0))
           \<le> rank (tasks (apply_event env d ev s) ! i)"
proof (cases ev)
  case (Step j)
  show ?thesis
  proof (cases "j = i")
    case True
    with Step task_step_rank [OF assms, of env] show ?thesis by simp
  next
    case False
    with Step show ?thesis by (simp add: task_step_other)
  qed
next
  case Signal
  then show ?thesis by simp
qed

lemma run_rank:
  assumes "i < length (tasks s)" "i < length (d_items d)"
  shows "min 4 (rank (tasks s ! i) + count_list evs (Step i))
           \<le> rank (tasks (run env d evs s) ! i)"
  using assms
proof (induction evs arbitrary: s)
  case Nil
  then show ?case by (simp add: run_Nil)
next
  case (Cons ev evs)
  let ?s' = "apply_event env d ev s"
  have len: "i < length (tasks ?s')" using Cons.prems by simp
  have step: "min 4 (rank (tasks s ! i) + (if ev = Step i then 1 else 0)) \<le> rank (tasks ?s' ! i)"
    using apply_event_rank Cons.prems by blast
  have ih: "min 4 (rank (tasks ?s' ! i) + count_list evs (Step i))
              \<le> rank (tasks (run env d evs ?s') ! i)"
    using Cons.IH [OF len Cons.prems(2)] .
  from step ih show ?case
    by (auto simp: run_Cons min_def split: if_splits)
qed

lemma run_completes:
  assumes "i < length (tasks s)" "i < length (d_items d)" "4 \<le> count_list evs (Step i)"
  shows "is_Finished (tasks (run env d evs s) ! i)"
proof -
  have "rank ph \<le> 4" for ph by (cases ph) simp_all
  moreover have "4 \<le> rank (tasks (run env d evs s) ! i)"
    using run_rank [OF assms(1,2), of evs env] assms(3) by (simp add: min_def split: if_splits)
  ultimately show ?thesis
    by (simp add: is_Finished_rank le_antisym)
qed

section \<open>The outputs of failed and skipped tasks\<close>

lemma is_excluded_failedOutput:
  "is_excluded (failedOutput env d index item itemOutput err) = Inr True"
  by (simp add: is_excluded_def failedOutput_def bind_e_def update_conv' excluded_def)

lemma error_text_failedOutput:
  "ToString (opt_prop (js_prop (failedOutput env d index item itemOutput err) ''error'') ''value'')
     = failureMessage env d index item err"
  by (simp add: failedOutput_def update_conv' string_value_def)

lemma is_excluded_skippedOutput: "is_excluded skippedOutput = Inr True"
  by (simp add: is_excluded_def skippedOutput_def bind_e_def excluded_def)

lemma error_text_skippedOutput:
  "ToString (opt_prop (js_prop skippedOutput ''error'') ''value'') = ''undefined''"
  by (simp add: skippedOutput_def)

lemma failedOutput_not_null [simp]:
  "failedOutput env d index item itemOutput err \<noteq> JNull"
  "failedOutput env d index item itemOutput err \<noteq> JUndefined"
  "JNull \<noteq> failedOutput env d index item itemOutput err"
  "JUndefined \<noteq> failedOutput env d index item itemOutput err"
  by (simp_all add: failedOutput_def)

lemma skippedOutput_not_null [simp]:
  "skippedOutput \<noteq> JNull" "skippedOutput \<noteq> JUndefined"
  "JNull \<noteq> skippedOutput" "JUndefined \<noteq> skippedOutput"
  by (simp_all add: skippedOutput_def)

lemma stub_not_excluded: "is_excluded (JObj (stub_outputs i)) = Inr False"
  by (simp add: is_excluded_def stub_outputs_def bind_e_def)

lemma stub_invocation_succeeds: "invocation_succeeds (stub_env [] b k) d i"
  by (simp add: invocation_succeeds_def stub_invoke stub_not_excluded)

section \<open>Failures of the cache codec\<close>

text \<open>
  Claim C3, as amended. With caching on, an item whose subgraph invocation succeeds but
  whose result cannot be compressed does not keep its result: the exception of
  \<^verbatim>\<open>compressObject\<close> is caught by the task's only catch block, which overwrites the
  outputs port with the excluded marker, records the error and sets the abort flag. A
  cached text that cannot be decoded is not treated as a miss either: the task ends as
  failed, sets the abort flag, and the subgraph is not called. Either way the item's
  outputs are marked excluded, so the batch fails.
\<close>

theorem codec_failure_fails_item:
  "(index < length (tasks s) \<and> index < length (d_items d) \<and> d_hasCache d
      \<and> tasks s ! index = AwaitProcess
      \<and> invoke env index (iteratorInputData d (d_items d ! index)) = Inr itemOutput
      \<and> compressObject env (JObj itemOutput) = Inl e \<longrightarrow>
        task_step env d index (task_step env d index s)
          = s\<lparr>abortIteration := True,
              tasks := (tasks s)
                [index := Finished (failedOutput env d index (d_items d ! index) itemOutput e)]\<rparr>)
   \<and> (index < length (tasks s) \<and> index < length (d_items d)
      \<and> tasks s ! index = AwaitKey
      \<and> cacheMap s (cacheKey env d (d_items d ! index)) = Some c \<and> c \<noteq> []
      \<and> decompressObject env c = Inl e \<longrightarrow>
        task_step env d index s
          = s\<lparr>abortIteration := True,
              tasks := (tasks s)
                [index := Finished (failedOutput env d index (d_items d ! index) [] e)]\<rparr>)
   \<and> is_excluded (failedOutput env d index item itemOutput e) = Inr True"
proof (intro conjI impI)
  assume a: "index < length (tasks s) \<and> index < length (d_items d) \<and> d_hasCache d
      \<and> tasks s ! index = AwaitProcess
      \<and> invoke env index (iteratorInputData d (d_items d ! index)) = Inr itemOutput
      \<and> compressObject env (JObj itemOutput) = Inl e"
  then have s1: "task_step env d index s = s\<lparr>tasks := (tasks s)[index := AwaitStoreKey itemOutput]\<rparr>"
    by (simp add: task_step_process)
  show "task_step env d index (task_step env d index s)
          = s\<lparr>abortIteration := True,
              tasks := (tasks s)
                [index := Finished (failedOutput env d index (d_items d ! index) itemOutput e)]\<rparr>"
    using a by (simp add: s1 task_step_store)
next
  assume a: "index < length (tasks s) \<and> index < length (d_items d)
      \<and> tasks s ! index = AwaitKey
      \<and> cacheMap s (cacheKey env d (d_items d ! index)) = Some c \<and> c \<noteq> []
      \<and> decompressObject env c = Inl e"
  have "task_step env d index s =
     (case decompressObject env c of
        Inr v \<Rightarrow> s\<lparr>tasks := (tasks s)[index := Finished v]\<rparr>
      | Inl e \<Rightarrow> s\<lparr>abortIteration := True,
                   tasks := (tasks s)
                     [index := Finished (failedOutput env d index (d_items d ! index) [] e)]\<rparr>)"
    by (rule task_step_hit) (use a in simp_all)
  then show "task_step env d index s
          = s\<lparr>abortIteration := True,
              tasks := (tasks s)
                [index := Finished (failedOutput env d index (d_items d ! index) [] e)]\<rparr>"
    using a by simp
qed (rule is_excluded_failedOutput)

theorem codec_failure_fails_item_witness:
  "task_step (stub_env [] True []) (stub_dispatch [stub_item 1] True) 0
     (task_step (stub_env [] True []) (stub_dispatch [stub_item 1] True) 0
        \<lparr>abortIteration = False, cacheMap = Map.empty, tasks = [AwaitProcess], invoked = [0]\<rparr>)
     = \<lparr>abortIteration = True, cacheMap = Map.empty,
        tasks = [Finished (failedOutput (stub_env [] True []) (stub_dispatch [stub_item 1] True) 0
                   (stub_item 1) (stub_outputs 0) (JsError ''Invalid string length''))],
        invoked = [0]\<rparr>
   \<and> task_step (stub_env [] False []) (stub_dispatch [stub_item 1] True) 0
        \<lparr>abortIteration = False,
         cacheMap = [cacheKey (stub_env [] False []) (stub_dispatch [stub_item 1] True) (stub_item 1)
                       \<mapsto> ''garbage''],
         tasks = [AwaitKey], invoked = []\<rparr>
     = \<lparr>abortIteration = True,
        cacheMap = [cacheKey (stub_env [] False []) (stub_dispatch [stub_item 1] True) (stub_item 1)
                       \<mapsto> ''garbage''],
        tasks = [Finished (failedOutput (stub_env [] False []) (stub_dispatch [stub_item 1] True) 0
                   (stub_item 1) [] (SyntaxError ''Unexpected token''))],
        invoked = []\<rparr>"
  using codec_failure_fails_item [of 0
      "\<lparr>abortIteration = False, cacheMap = Map.empty, tasks = [AwaitProcess], invoked = [0]\<rparr>"
      "stub_dispatch [stub_item 1] True" "stub_env [] True []" "stub_outputs 0"
      "JsError ''Invalid string length''"]
    codec_failure_fails_item [of 0
      "\<lparr>abortIteration = False,
         cacheMap = [cacheKey (stub_env [] False []) (stub_dispatch [stub_item 1] True) (stub_item 1)
                       \<mapsto> ''garbage''],
         tasks = [AwaitKey], invoked = []\<rparr>"
      "stub_dispatch [stub_item 1] True" "stub_env [] False []" _
      "SyntaxError ''Unexpected token''" "''garbage''"]
  by (simp add: stub_invoke stub_compress_broken stub_decompress_garbage)

text \<open>
  The claim as stated fails in the stub environment: the invocation of the single item
  succeeds and the compressor throws, yet the task finishes with the failure outputs and
  not with the subgraph's result; and with an undecodable text cached under the item's
  key the task finishes as failed without the subgraph ever being called.
\<close>

theorem codec_failure_counterexample:
  "invoke (stub_env [] True []) 0
     (iteratorInputData (stub_dispatch [stub_item 1] True) (stub_item 1)) = Inr (stub_outputs 0)
   \<and> compressObject (stub_env [] True []) (JObj (stub_outputs 0))
       = Inl (JsError ''Invalid string length'')
   \<and> tasks (run (stub_env [] True []) (stub_dispatch [stub_item 1] True)
        [Step 0, Step 0, Step 0, Step 0]
        (init_state (stub_dispatch [stub_item 1] True) fresh_entry))
       = [Finished (failedOutput (stub_env [] True []) (stub_dispatch [stub_item 1] True) 0
                   (stub_item 1) (stub_outputs 0) (JsError ''Invalid string length''))]
   \<and> failedOutput (stub_env [] True []) (stub_dispatch [stub_item 1] True) 0
                   (stub_item 1) (stub_outputs 0) (JsError ''Invalid string length'')
       \<noteq> JObj (stub_outputs 0)
   \<and> decompressObject (stub_env [] False []) ''garbage'' = Inl (SyntaxError ''Unexpected token'')
   \<and> run (stub_env [] False []) (stub_dispatch [stub_item 1] True) [Step 0, Step 0]
        (init_state (stub_dispatch [stub_item 1] True)
           (fresh_entry\<lparr>cache :=
              [cacheKey (stub_env [] False []) (stub_dispatch [stub_item 1] True) (stub_item 1)
                 \<mapsto> ''garbage'']\<rparr>))
       = \<lparr>abortIteration = True,
          cacheMap = [cacheKey (stub_env [] False []) (stub_dispatch [stub_item 1] True) (stub_item 1)
                       \<mapsto> ''garbage''],
          tasks = [Finished (failedOutput (stub_env [] False []) (stub_dispatch [stub_item 1] True) 0
                   (stub_item 1) [] (SyntaxError ''Unexpected token''))],
          invoked = []\<rparr>"
  by (simp add: stub_invoke stub_compress_broken stub_decompress_garbage run_Nil run_Cons
      init_state_def fresh_entry_def task_step_start task_step_miss task_step_process
      task_step_store task_step_hit failedOutput_def stub_outputs_def excluded_def)

section \<open>The abort flag\<close>

text \<open>
  Claim C8. A task fails when its try block throws; the step in which that happens sets
  the abort flag and finishes the task with its failure outputs. Once set, the flag stays
  set through every later event of the run. A task that starts while the flag is set
  finishes at once with the skipped outputs, without calling the subgraph and without
  touching the cache; so in every continuation of the run that gives it a step, a task
  still pending when the flag is set ends up skipped and the subgraph is never called for
  it. A task already in flight is not affected by the flag: its step does
  the same with the flag set as without, it is finished after at most four runs of its
  own whatever else happens, and outputs once produced are never changed.
\<close>

theorem abort_latched_and_skips_unstarted:
  "(index < length (tasks s) \<and> index < length (d_items d)
      \<and> task_segment env d index (d_items d ! index) s (tasks s ! index) = Throws itemOutput e \<longrightarrow>
        abortIteration (task_step env d index s)
        \<and> tasks (task_step env d index s) ! index
            = Finished (failedOutput env d index (d_items d ! index) itemOutput e))
   \<and> (abortIteration s \<longrightarrow> abortIteration (run env d evs s))
   \<and> (abortIteration s \<and> index < length (tasks s) \<and> index < length (d_items d)
      \<and> tasks s ! index = Pending \<longrightarrow>
        tasks (task_step env d index s) ! index = Finished skippedOutput
        \<and> invoked (task_step env d index s) = invoked s
        \<and> cacheMap (task_step env d index s) = cacheMap s)
   \<and> (abortIteration s \<and> index < length (tasks s) \<and> index < length (d_items d)
      \<and> tasks s ! index = Pending \<and> index \<notin> set (invoked s) \<and> Step index \<in> set evs \<longrightarrow>
        tasks (run env d evs s) ! index = Finished skippedOutput
        \<and> index \<notin> set (invoked (run env d evs s)))
   \<and> (tasks s ! index \<noteq> Pending \<longrightarrow>
        task_step env d index (s\<lparr>abortIteration := True\<rparr>)
          = (task_step env d index s)\<lparr>abortIteration := True\<rparr>)
   \<and> (index < length (tasks s) \<and> index < length (d_items d)
      \<and> 4 \<le> count_list evs (Step index) \<longrightarrow>
        is_Finished (tasks (run env d evs s) ! index))
   \<and> (tasks s ! index = Finished v \<longrightarrow> tasks (run env d evs s) ! index = Finished v)"
proof (intro conjI impI)
  assume a: "index < length (tasks s) \<and> index < length (d_items d)
      \<and> task_segment env d index (d_items d ! index) s (tasks s ! index) = Throws itemOutput e"
  then have eq: "task_step env d index s =
     s\<lparr>abortIteration := True,
       tasks := (tasks s)
         [index := Finished (failedOutput env d index (d_items d ! index) itemOutput e)]\<rparr>"
    using task_step_throws by blast
  show "abortIteration (task_step env d index s)" by (simp add: eq)
  show "tasks (task_step env d index s) ! index
            = Finished (failedOutput env d index (d_items d ! index) itemOutput e)"
    using a by (simp add: eq)
next
  assume "abortIteration s"
  then show "abortIteration (run env d evs s)" by (rule run_latch)
next
  assume a: "abortIteration s \<and> index < length (tasks s) \<and> index < length (d_items d)
      \<and> tasks s ! index = Pending"
  then have eq: "task_step env d index s = s\<lparr>tasks := (tasks s)[index := Finished skippedOutput]\<rparr>"
    using task_step_skip by blast
  show "tasks (task_step env d index s) ! index = Finished skippedOutput"
    using a by (simp add: eq)
  show "invoked (task_step env d index s) = invoked s" by (simp add: eq)
  show "cacheMap (task_step env d index s) = cacheMap s" by (simp add: eq)
next
  assume a: "abortIteration s \<and> index < length (tasks s) \<and> index < length (d_items d)
      \<and> tasks s ! index = Pending \<and> index \<notin> set (invoked s) \<and> Step index \<in> set evs"
  then show "tasks (run env d evs s) ! index = Finished skippedOutput"
    by (intro run_skips_pending) simp_all
  from a show "index \<notin> set (invoked (run env d evs s))"
    by (intro run_never_invokes_pending) simp_all
next
  assume "tasks s ! index \<noteq> Pending"
  then show "task_step env d index (s\<lparr>abortIteration := True\<rparr>)
          = (task_step env d index s)\<lparr>abortIteration := True\<rparr>"
    by (rule task_step_in_flight)
next
  assume "index < length (tasks s) \<and> index < length (d_items d)
      \<and> 4 \<le> count_list evs (Step index)"
  then show "is_Finished (tasks (run env d evs s) ! index)"
    using run_completes by blast
next
  assume "tasks s ! index = Finished v"
  then show "tasks (run env d evs s) ! index = Finished v" by (rule run_keeps_finished)
qed

theorem abort_latched_and_skips_unstarted_witness:
  "abortIteration (task_step (stub_env [1] False []) (stub_dispatch stub_batch False) 1
      \<lparr>abortIteration = False, cacheMap = Map.empty,
       tasks = [Pending, AwaitProcess, AwaitProcess], invoked = [2, 1]\<rparr>)
   \<and> tasks (task_step (stub_env [1] False []) (stub_dispatch stub_batch False) 0
      \<lparr>abortIteration = True, cacheMap = Map.empty,
       tasks = [Pending, Finished JNull, AwaitProcess], invoked = [2, 1]\<rparr>) ! 0
       = Finished skippedOutput
   \<and> invoked (task_step (stub_env [1] False []) (stub_dispatch stub_batch False) 0
      \<lparr>abortIteration = True, cacheMap = Map.empty,
       tasks = [Pending, Finished JNull, AwaitProcess], invoked = [2, 1]\<rparr>) = [2, 1]
   \<and> abortIteration (run (stub_env [1] False []) (stub_dispatch stub_batch False)
      [Step 2, Step 0, Step 0, Step 0, Step 0]
      \<lparr>abortIteration = True, cacheMap = Map.empty,
       tasks = [Pending, Finished JNull, AwaitProcess], invoked = [2, 1]\<rparr>)
   \<and> tasks (run (stub_env [1] False []) (stub_dispatch stub_batch False)
      [Step 2, Step 0, Step 0, Step 0, Step 0]
      \<lparr>abortIteration = True, cacheMap = Map.empty,
       tasks = [Pending, Finished JNull, AwaitProcess], invoked = [2, 1]\<rparr>) ! 0
       = Finished skippedOutput
   \<and> 0 \<notin> set (invoked (run (stub_env [1] False []) (stub_dispatch stub_batch False)
      [Step 2, Step 0, Step 0, Step 0, Step 0]
      \<lparr>abortIteration = True, cacheMap = Map.empty,
       tasks = [Pending, Finished JNull, AwaitProcess], invoked = [2, 1]\<rparr>))
   \<and> is_Finished (tasks (run (stub_env [1] False []) (stub_dispatch stub_batch False)
      [Step 2, Step 0, Step 0, Step 0, Step 0]
      \<lparr>abortIteration = True, cacheMap = Map.empty,
       tasks = [Pending, Finished JNull, AwaitProcess], invoked = [2, 1]\<rparr>) ! 0)
   \<and> tasks (run (stub_env [1] False []) (stub_dispatch stub_batch False)
      [Step 2, Step 0, Step 0, Step 0, Step 0]
      \<lparr>abortIteration = True, cacheMap = Map.empty,
       tasks = [Finished JNull, Pending, AwaitProcess], invoked = [2, 1]\<rparr>) ! 0 = Finished JNull
   \<and> task_step (stub_env [1] False []) (stub_dispatch stub_batch False) 1
      (\<lparr>abortIteration = False, cacheMap = Map.empty,
        tasks = [Pending, AwaitProcess, AwaitProcess], invoked = [2, 1]\<rparr>\<lparr>abortIteration := True\<rparr>)
      = (task_step (stub_env [1] False []) (stub_dispatch stub_batch False) 1
      \<lparr>abortIteration = False, cacheMap = Map.empty,
        tasks = [Pending, AwaitProcess, AwaitProcess], invoked = [2, 1]\<rparr>)\<lparr>abortIteration := True\<rparr>"
  using abort_latched_and_skips_unstarted [of 1
      "\<lparr>abortIteration = False, cacheMap = Map.empty,
        tasks = [Pending, AwaitProcess, AwaitProcess], invoked = [2, 1]\<rparr>"
      "stub_dispatch stub_batch False" "stub_env [1] False []" "[]" "JsError ''boom''" "[]" JNull]
    abort_latched_and_skips_unstarted [of 0
      "\<lparr>abortIteration = True, cacheMap = Map.empty,
        tasks = [Pending, Finished JNull, AwaitProcess], invoked = [2, 1]\<rparr>"
      "stub_dispatch stub_batch False" "stub_env [1] False []" "[]" "JsError ''boom''"
      "[Step 2, Step 0, Step 0, Step 0, Step 0]" JNull]
    abort_latched_and_skips_unstarted [of 0
      "\<lparr>abortIteration = True, cacheMap = Map.empty,
        tasks = [Finished JNull, Pending, AwaitProcess], invoked = [2, 1]\<rparr>"
      "stub_dispatch stub_batch False" "stub_env [1] False []" "[]" "JsError ''boom''"
      "[Step 2, Step 0, Step 0, Step 0, Step 0]" JNull]
  by (simp add: stub_batch_def stub_invoke)

section \<open>Aggregation of the outputs\<close>

lemma is_excluded_total:
  "f \<noteq> JNull \<Longrightarrow> f \<noteq> JUndefined \<Longrightarrow> \<exists>b. is_excluded f = Inr b"
  by (cases f) (auto simp: is_excluded_def bind_e_def)

lemma some_e_total:
  "\<forall>x\<in>set xs. \<exists>b. p x = Inr b \<Longrightarrow> some_e p xs = Inr (\<exists>x\<in>set xs. p x = Inr True)"
  by (induction xs) auto

lemma filter_e_total:
  "\<forall>x\<in>set xs. \<exists>b. p x = Inr b \<Longrightarrow> filter_e p xs = Inr (filter (\<lambda>x. p x = Inr True) xs)"
  by (induction xs) auto

lemma aggregate_error:
  assumes "JNull \<notin> set outs" and "JUndefined \<notin> set outs"
    and "\<exists>f\<in>set outs. is_excluded f = Inr True"
  shows "aggregate outs =
     Inr (JObj [(''iteratorOutputs'', excluded),
                (''error'', string_value
                   (join ''; '' (map (\<lambda>(m, i). error_part m i)
                      (zip (filter (\<lambda>f. is_excluded f = Inr True) outs)
                           [0..<length (filter (\<lambda>f. is_excluded f = Inr True) outs)]))))])"
proof -
  have tot: "\<forall>f\<in>set outs. \<exists>b. is_excluded f = Inr b"
    using assms(1,2) is_excluded_total by metis
  show ?thesis
    using assms(3) by (simp add: aggregate_def some_e_total [OF tot] filter_e_total [OF tot] bind_e_def)
qed

lemma aggregate_success:
  assumes "\<forall>f\<in>set outs. is_excluded f = Inr False"
  shows "aggregate outs =
     Inr (JObj [(''iteratorOutputs'',
                 JObj [(''type'', JStr ''object[]''), (''value'', JArr outs)])])"
proof -
  have tot: "\<forall>f\<in>set outs. \<exists>b. is_excluded f = Inr b" using assms by blast
  have "\<not> (\<exists>f\<in>set outs. is_excluded f = Inr True)"
    using assms by auto
  then have "some_e is_excluded outs = Inr False"
    by (simp only: some_e_total [OF tot])
  then show ?thesis by (simp add: aggregate_def bind_e_def)
qed

lemma error_part_skipped: "error_part skippedOutput i = ''ItemIndex: '' @ string_of_nat i @ '':: undefined''"
  by (simp add: error_part_def error_text_skippedOutput)

lemma error_part_failed:
  "error_part (failedOutput env d index item itemOutput err) i
     = ''ItemIndex: '' @ string_of_nat i @ '':: '' @ failureMessage env d index item err"
  by (simp add: error_part_def error_text_failedOutput)

text \<open>
  Claim C4, as amended. When some task's outputs are marked excluded (the task failed or was
  skipped), the batch result is a single error: the output array is replaced by the
  excluded marker, and the message has one part per failed or skipped item, in input
  order, joined by \<^verbatim>\<open>"; "\<close>. The part of a failed item ends with that item's own error
  text, which names the item's index in the input batch; the part of a skipped item is not
  empty: it ends with the text \<^verbatim>\<open>undefined\<close>. (The number after the leading
  \<^verbatim>\<open>ItemIndex:\<close> of a part is left open here.)
\<close>

theorem aggregated_error_message:
  "(JNull \<notin> set outs \<and> JUndefined \<notin> set outs \<and> (\<exists>f\<in>set outs. is_excluded f = Inr True) \<longrightarrow>
      (\<exists>parts.
         aggregate outs = Inr (JObj [(''iteratorOutputs'', excluded),
                                     (''error'', string_value (join ''; '' parts))])
         \<and> length parts = length (filter (\<lambda>f. is_excluded f = Inr True) outs)
         \<and> (\<forall>k<length parts. \<exists>n.
              parts ! k = ''ItemIndex: '' @ n @ '':: ''
                @ ToString (opt_prop
                    (js_prop (filter (\<lambda>f. is_excluded f = Inr True) outs ! k) ''error'') ''value''))))
   \<and> is_excluded (failedOutput env d index item itemOutput err) = Inr True
   \<and> ToString (opt_prop (js_prop (failedOutput env d index item itemOutput err) ''error'') ''value'')
       = ''Error running graph '' @ d_graphName d
         @ ''.  ItemIndex: '' @ string_of_nat index
         @ ''::  Inputs: '' @ (case stringify env item of None \<Rightarrow> ''undefined'' | Some s \<Rightarrow> s)
         @ ''  Message: '' @ message err
   \<and> is_excluded skippedOutput = Inr True
   \<and> ToString (opt_prop (js_prop skippedOutput ''error'') ''value'') = ''undefined''"
proof (intro conjI impI)
  assume a: "JNull \<notin> set outs \<and> JUndefined \<notin> set outs \<and> (\<exists>f\<in>set outs. is_excluded f = Inr True)"
  let ?fs = "filter (\<lambda>f. is_excluded f = Inr True) outs"
  let ?parts = "map (\<lambda>(m, i). error_part m i) (zip ?fs [0..<length ?fs])"
  have "aggregate outs = Inr (JObj [(''iteratorOutputs'', excluded),
                                     (''error'', string_value (join ''; '' ?parts))])"
    using a aggregate_error by blast
  moreover have "length ?parts = length ?fs" by simp
  moreover have "\<forall>k<length ?parts. \<exists>n.
              ?parts ! k = ''ItemIndex: '' @ n @ '':: ''
                @ ToString (opt_prop (js_prop (?fs ! k) ''error'') ''value'')"
    by (auto simp: error_part_def)
  ultimately show "\<exists>parts.
         aggregate outs = Inr (JObj [(''iteratorOutputs'', excluded),
                                     (''error'', string_value (join ''; '' parts))])
         \<and> length parts = length ?fs
         \<and> (\<forall>k<length parts. \<exists>n.
              parts ! k = ''ItemIndex: '' @ n @ '':: ''
                @ ToString (opt_prop (js_prop (?fs ! k) ''error'') ''value''))"
    by blast
qed (simp_all add: is_excluded_failedOutput error_text_failedOutput is_excluded_skippedOutput
      error_text_skippedOutput failureMessage_def)

theorem aggregated_error_message_witness:
  "\<exists>parts.
     aggregate [JObj (stub_outputs 0),
                failedOutput (stub_env [1] False []) (stub_dispatch stub_batch False) 1
                  (stub_item 5) [] (JsError ''boom''),
                skippedOutput]
       = Inr (JObj [(''iteratorOutputs'', excluded),
                    (''error'', string_value (join ''; '' parts))])
     \<and> length parts = 2"
proof -
  let ?outs = "[JObj (stub_outputs 0),
                failedOutput (stub_env [1] False []) (stub_dispatch stub_batch False) 1
                  (stub_item 5) [] (JsError ''boom''),
                skippedOutput]"
  have h: "JNull \<notin> set ?outs \<and> JUndefined \<notin> set ?outs
           \<and> (\<exists>f\<in>set ?outs. is_excluded f = Inr True)"
    by (simp add: is_excluded_skippedOutput)
  have l: "length (filter (\<lambda>f. is_excluded f = Inr True) ?outs) = 2"
    by (simp add: is_excluded_skippedOutput is_excluded_failedOutput stub_not_excluded)
  from aggregated_error_message [of ?outs] h l show ?thesis
    by metis
qed

lemma run_fail_then_skip:
  "run (stub_env [1] False []) (stub_dispatch stub_batch False)
     [Step 0, Step 1, Step 0, Step 1, Step 2]
     (init_state (stub_dispatch stub_batch False) entry)
   = \<lparr>abortIteration = True, cacheMap = cache entry,
      tasks = [Finished (JObj (stub_outputs 0)),
               Finished (failedOutput (stub_env [1] False [])
                  (stub_dispatch stub_batch False) 1 (stub_item 5) [] (JsError ''boom'')),
               Finished skippedOutput],
      invoked = [0, 1]\<rparr>"
  by (simp add: run_Nil run_Cons init_state_def stub_batch_def task_step_start task_step_process
      task_step_skip stub_invoke)

text \<open>
  The claim as stated fails on a batch of three items where the subgraph fails for item 1
  and item 2 is skipped: the skipped item contributes the text
  \<^verbatim>\<open>ItemIndex: 1:: undefined\<close> to the message.
\<close>

theorem skipped_item_text_counterexample:
  "map_option snd (process (stub_env [1] False []) (stub_data False) (stub_inputs stub_batch)
      Map.empty 1000 1001 [Step 0, Step 1, Step 0, Step 1, Step 2])
    = Some (Inr (JObj [(''iteratorOutputs'', excluded),
         (''error'', string_value
            (''ItemIndex: 0:: Error running graph Sub.  ItemIndex: 1::  Inputs: ''
             @ ''{x:{type:number,value:5},y:{type:number,value:6}}  Message: boom''
             @ ''; ItemIndex: 1:: undefined''))]))"
proof -
  have v: "process_validating (stub_env [1] False []) (stub_data False) (stub_inputs stub_batch)
             Map.empty 1000
   = (Map.empty,
      Dispatched (stub_dispatch stub_batch False)
        \<lparr>cache = Map.empty, expiryTimestamp = 4600,
         graphSnapshot = Some ''#[{id:x,dataType:number},{id:y,dataType:number},{text:hello}]''\<rparr>)"
    by (rule stub_validating) (auto simp: stub_batch_def)
  have agg: "aggregate [JObj (stub_outputs 0),
               failedOutput (stub_env [1] False [])
                  (stub_dispatch stub_batch False) 1 (stub_item 5) [] (JsError ''boom''),
               skippedOutput]
     = Inr (JObj [(''iteratorOutputs'', excluded),
         (''error'', string_value
            (''ItemIndex: 0:: Error running graph Sub.  ItemIndex: 1::  Inputs: ''
             @ ''{x:{type:number,value:5},y:{type:number,value:6}}  Message: boom''
             @ ''; ItemIndex: 1:: undefined''))])"
    by (subst aggregate_error)
       (simp_all add: is_excluded_failedOutput is_excluded_skippedOutput stub_not_excluded
          error_part_failed error_part_skipped failureMessage_def stub_stringify_items
          string_of_nat.simps upt_rec)
  have fin: "list_all is_Finished (tasks (run (stub_env [1] False [])
      (stub_dispatch stub_batch False) [Step 0, Step 1, Step 0, Step 1, Step 2]
      (init_state (stub_dispatch stub_batch False)
        \<lparr>cache = Map.empty, expiryTimestamp = 4600,
         graphSnapshot = Some ''#[{id:x,dataType:number},{id:y,dataType:number},{text:hello}]''\<rparr>)))"
    unfolding run_fail_then_skip by simp
  show ?thesis
    unfolding process_Dispatched [OF v fin] run_fail_then_skip iteratorOutputs_def
    using agg by simp
qed

section \<open>The order of the outputs\<close>

lemma run_inv_init: "run_inv env d entry (init_state d entry)"
  by (simp add: run_inv_def init_state_def cached_def phase_ok_def)

lemma phase_ok_update:
  assumes "\<forall>i<length (d_items d). phase_ok env d entry i (ts ! i)"
    and "length ts = length (d_items d)" and "phase_ok env d entry j ph"
  shows "\<forall>i<length (d_items d). phase_ok env d entry i (ts[j := ph] ! i)"
proof (intro allI impI)
  fix i assume "i < length (d_items d)"
  with assms show "phase_ok env d entry i (ts[j := ph] ! i)"
    by (cases "i = j") simp_all
qed

lemma run_inv_step:
  assumes ok: "\<forall>i<length (d_items d). invocation_succeeds env d i"
    and codec: "d_hasCache d \<longrightarrow> codec_succeeds env d entry"
    and inv: "run_inv env d entry s"
  shows "run_inv env d entry (task_step env d j s)"
proof (cases "j < length (d_items d)")
  case False
  then show ?thesis using inv by (simp add: task_step_def)
next
  case True
  let ?item = "d_items d ! j"
  from inv have len: "length (tasks s) = length (d_items d)"
    and nab: "\<not> abortIteration s"
    and cm: "\<forall>k c. cacheMap s k = Some c \<longrightarrow> cached env d entry k c"
    and po: "\<forall>i<length (d_items d). phase_ok env d entry i (tasks s ! i)"
    by (simp_all add: run_inv_def)
  from True len have jt: "j < length (tasks s)" by simp
  from ok True have "invocation_succeeds env d j" by simp
  then obtain out where out: "invoke env j (iteratorInputData d ?item) = Inr out"
    and nex: "is_excluded (JObj out) = Inr False"
    by (cases "invoke env j (iteratorInputData d ?item)") (simp_all add: invocation_succeeds_def)
  have res_out: "item_result env d entry j (JObj out)"
    using out by (simp add: item_result_def)
  show ?thesis
  proof (cases "tasks s ! j")
    case Pending
    have "task_step env d j s =
       (if d_hasCache d then s\<lparr>tasks := (tasks s)[j := AwaitKey]\<rparr>
        else s\<lparr>tasks := (tasks s)[j := AwaitProcess], invoked := invoked s @ [j]\<rparr>)"
      using jt True Pending nab by (rule task_step_start)
    then show ?thesis
      using len nab cm phase_ok_update [OF po len, of j AwaitKey]
        phase_ok_update [OF po len, of j AwaitProcess]
      by (simp add: run_inv_def phase_ok_def)
  next
    case AwaitKey
    with po True have hc: "d_hasCache d" by (auto simp: phase_ok_def)
    show ?thesis
    proof (cases "cacheMap s (cacheKey env d ?item) = None
         \<or> cacheMap s (cacheKey env d ?item) = Some []")
      case True
      have "task_step env d j s =
         s\<lparr>tasks := (tasks s)[j := AwaitProcess], invoked := invoked s @ [j]\<rparr>"
        using jt \<open>j < length (d_items d)\<close> AwaitKey True by (rule task_step_miss)
      then show ?thesis
        using len nab cm phase_ok_update [OF po len, of j AwaitProcess]
        by (simp add: run_inv_def phase_ok_def)
    next
      case False
      then obtain c where c: "cacheMap s (cacheKey env d ?item) = Some c" "c \<noteq> []"
        by auto
      with cm have cc: "cached env d entry (cacheKey env d ?item) c" by simp
      with codec hc c \<open>j < length (d_items d)\<close>
      obtain v where v: "decompressObject env c = Inr v" "is_excluded v = Inr False"
        unfolding codec_succeeds_def by blast
      have "task_step env d j s =
         (case decompressObject env c of
            Inr v \<Rightarrow> s\<lparr>tasks := (tasks s)[j := Finished v]\<rparr>
          | Inl e \<Rightarrow> s\<lparr>abortIteration := True,
                       tasks := (tasks s)
                         [j := Finished (failedOutput env d j ?item [] e)]\<rparr>)"
        using jt \<open>j < length (d_items d)\<close> AwaitKey c by (rule task_step_hit)
      then have eq: "task_step env d j s = s\<lparr>tasks := (tasks s)[j := Finished v]\<rparr>"
        by (simp add: v)
      have "phase_ok env d entry j (Finished v)"
        using hc c cc v by (auto simp: phase_ok_def item_result_def)
      then show ?thesis
        using len nab cm phase_ok_update [OF po len, of j "Finished v"]
        by (simp add: run_inv_def eq)
    qed
  next
    case AwaitProcess
    have "task_step env d j s =
       (case invoke env j (iteratorInputData d ?item) of
          Inr itemOutput \<Rightarrow>
            if d_hasCache d then s\<lparr>tasks := (tasks s)[j := AwaitStoreKey itemOutput]\<rparr>
            else s\<lparr>tasks := (tasks s)[j := Finished (JObj itemOutput)]\<rparr>
        | Inl e \<Rightarrow> s\<lparr>abortIteration := True,
                     tasks := (tasks s)
                       [j := Finished (failedOutput env d j ?item [] e)]\<rparr>)"
      using jt True AwaitProcess by (rule task_step_process)
    then have eq: "task_step env d j s =
       (if d_hasCache d then s\<lparr>tasks := (tasks s)[j := AwaitStoreKey out]\<rparr>
        else s\<lparr>tasks := (tasks s)[j := Finished (JObj out)]\<rparr>)"
      by (simp add: out)
    have "d_hasCache d \<Longrightarrow> phase_ok env d entry j (AwaitStoreKey out)"
      using out by (simp add: phase_ok_def)
    moreover have "phase_ok env d entry j (Finished (JObj out))"
      using res_out nex by (simp add: phase_ok_def)
    ultimately show ?thesis
      using len nab cm phase_ok_update [OF po len, of j "AwaitStoreKey out"]
        phase_ok_update [OF po len, of j "Finished (JObj out)"]
      by (simp add: run_inv_def eq)
  next
    case (AwaitStoreKey itemOutput)
    with po True have hc: "d_hasCache d"
      and io: "invoke env j (iteratorInputData d ?item) = Inr itemOutput"
      by (auto simp: phase_ok_def)
    from io out have [simp]: "itemOutput = out" by simp
    from codec hc have "\<forall>i<length (d_items d).
        case invoke env i (iteratorInputData d (d_items d ! i)) of
          Inl e \<Rightarrow> True
        | Inr out \<Rightarrow> (\<exists>c. compressObject env (JObj out) = Inr c)"
      by (simp add: codec_succeeds_def)
    with True have "case invoke env j (iteratorInputData d ?item) of
          Inl e \<Rightarrow> True
        | Inr out \<Rightarrow> (\<exists>c. compressObject env (JObj out) = Inr c)"
      by blast
    then obtain c where c: "compressObject env (JObj out) = Inr c"
      by (auto simp: out)
    have "task_step env d j s =
       (case compressObject env (JObj itemOutput) of
          Inr c \<Rightarrow> s\<lparr>cacheMap := (cacheMap s)(cacheKey env d ?item \<mapsto> c),
                     tasks := (tasks s)[j := Finished (JObj itemOutput)]\<rparr>
        | Inl e \<Rightarrow> s\<lparr>abortIteration := True,
                     tasks := (tasks s)
                       [j := Finished (failedOutput env d j ?item itemOutput e)]\<rparr>)"
      using jt True AwaitStoreKey by (rule task_step_store)
    then have eq: "task_step env d j s =
       s\<lparr>cacheMap := (cacheMap s)(cacheKey env d ?item \<mapsto> c),
         tasks := (tasks s)[j := Finished (JObj out)]\<rparr>"
      by (simp add: c)
    have new: "cached env d entry (cacheKey env d ?item) c"
      using True out c by (auto simp: cached_def)
    have "phase_ok env d entry j (Finished (JObj out))"
      using res_out nex by (simp add: phase_ok_def)
    then show ?thesis
      using len nab cm new phase_ok_update [OF po len, of j "Finished (JObj out)"]
      by (simp add: run_inv_def eq)
  next
    case (Finished v)
    then show ?thesis using inv by (simp add: task_step_finished)
  qed
qed

lemma run_inv_run:
  assumes "\<forall>i<length (d_items d). invocation_succeeds env d i"
    and "d_hasCache d \<longrightarrow> codec_succeeds env d entry"
    and "run_inv env d entry s"
  shows "run_inv env d entry (run env d (map Step sched) s)"
  using assms(3)
  by (induction sched arbitrary: s)
     (simp_all add: run_Nil run_Cons run_inv_step [OF assms(1,2)])

lemma count_list_map_Step: "count_list (map Step sched) (Step i) = count_list sched i"
  by (induction sched) simp_all

lemma finished_outputs:
  assumes inv: "run_inv env d entry s"
    and fin: "\<forall>i<length (d_items d). is_Finished (tasks s ! i)"
  shows "length (iteratorOutputs s) = length (d_items d)
     \<and> (\<forall>i<length (d_items d). item_result env d entry i (iteratorOutputs s ! i)
          \<and> is_excluded (iteratorOutputs s ! i) = Inr False)"
proof -
  from inv have len: "length (tasks s) = length (d_items d)" by (simp add: run_inv_def)
  have "item_result env d entry i (iteratorOutputs s ! i)
          \<and> is_excluded (iteratorOutputs s ! i) = Inr False" if "i < length (d_items d)" for i
  proof -
    from fin that obtain v where v: "tasks s ! i = Finished v"
      by (cases "tasks s ! i") auto
    from inv that have "phase_ok env d entry i (tasks s ! i)" by (simp add: run_inv_def)
    with v that len show ?thesis by (simp add: phase_ok_def iteratorOutputs_def)
  qed
  with len show ?thesis by (simp add: iteratorOutputs_def)
qed

lemma uncancelled_run_outputs:
  assumes ok: "\<forall>i<length (d_items d). invocation_succeeds env d i"
    and codec: "d_hasCache d \<longrightarrow> codec_succeeds env d entry"
    and fair: "\<forall>i<length (d_items d). 4 \<le> count_list sched i"
  defines "s \<equiv> run env d (map Step sched) (init_state d entry)"
  shows "list_all is_Finished (tasks s)
     \<and> aggregate (iteratorOutputs s) =
         Inr (JObj [(''iteratorOutputs'',
                 JObj [(''type'', JStr ''object[]''), (''value'', JArr (iteratorOutputs s))])])
     \<and> length (iteratorOutputs s) = length (d_items d)
     \<and> (\<forall>i<length (d_items d). item_result env d entry i (iteratorOutputs s ! i))"
proof -
  have inv: "run_inv env d entry s"
    unfolding s_def by (rule run_inv_run [OF ok codec run_inv_init])
  then have len: "length (tasks s) = length (d_items d)" by (simp add: run_inv_def)
  have fin: "\<forall>i<length (d_items d). is_Finished (tasks s ! i)"
  proof (intro allI impI)
    fix i assume i: "i < length (d_items d)"
    have "i < length (tasks (init_state d entry))" using i by (simp add: init_state_def)
    moreover have "4 \<le> count_list (map Step sched) (Step i)"
      using fair i by (simp add: count_list_map_Step)
    ultimately show "is_Finished (tasks s ! i)"
      unfolding s_def using i by (intro run_completes)
  qed
  have all: "list_all is_Finished (tasks s)"
    using fin len by (simp add: list_all_length)
  from finished_outputs [OF inv fin]
  have lo: "length (iteratorOutputs s) = length (d_items d)"
    and res: "\<forall>i<length (d_items d). item_result env d entry i (iteratorOutputs s ! i)
          \<and> is_excluded (iteratorOutputs s ! i) = Inr False"
    by simp_all
  have "\<forall>f\<in>set (iteratorOutputs s). is_excluded f = Inr False"
    using lo res by (auto simp: in_set_conv_nth)
  from aggregate_success [OF this] all lo res show ?thesis by simp
qed

lemma stub_codec_succeeds:
  "codec_succeeds (stub_env [] False [JObj (stub_outputs 0), JObj (stub_outputs 1)])
     (stub_dispatch [stub_item 1, stub_item 5] True) (stale_entry\<lparr>cache := Map.empty, graphSnapshot := g\<rparr>)"
proof -
  let ?E = "stub_env [] False [JObj (stub_outputs 0), JObj (stub_outputs 1)]"
  let ?D = "stub_dispatch [stub_item 1, stub_item 5] True"
  have "\<exists>v. decompressObject ?E c = Inr v \<and> is_excluded v = Inr False"
    if "cached ?E ?D (stale_entry\<lparr>cache := Map.empty, graphSnapshot := g\<rparr>) k c" for k c
  proof -
    from that have "\<exists>j<Suc (Suc 0). c = stub_text (JObj (stub_outputs j)) @ '' ''"
      by (auto simp: cached_def stub_invoke stub_compress)
    then obtain j where "j < Suc (Suc 0)" and c: "c = stub_text (JObj (stub_outputs j)) @ '' ''"
      by blast
    then have "j = 0 \<or> j = Suc 0" by auto
    with c show ?thesis
      using stub_decompress [of "[]" False] stub_not_excluded by auto
  qed
  then have "\<forall>i<length (d_items ?D). \<forall>c.
          c \<noteq> [] \<and> cached ?E ?D (stale_entry\<lparr>cache := Map.empty, graphSnapshot := g\<rparr>)
             (cacheKey ?E ?D (d_items ?D ! i)) c \<longrightarrow>
            (\<exists>v. decompressObject ?E c = Inr v \<and> is_excluded v = Inr False)"
    by blast
  then show ?thesis
    by (simp add: codec_succeeds_def stub_invoke stub_compress)
qed

text \<open>
  Claim C7, as amended. If every item passes validation (so the tasks are dispatched),
  every subgraph invocation succeeds, the abort signal does not fire, no step of the cache
  codec fails when caching is on, and the schedule lets every task run to its end, then
  \<^verbatim>\<open>process\<close> returns an output array with exactly one result per input item, and the
  result at position \<open>i\<close> is a result of the item at position \<open>i\<close> (the outputs of its own
  invocation, or the decoded cache entry of its own key), in whatever order the tasks run
  and complete.
\<close>

theorem outputs_in_input_order:
  assumes "process_validating env data inp st now = (st', Dispatched d entry)"
    and "\<forall>i<length (iteratorInputs inp). invocation_succeeds env d i"
    and "d_hasCache d \<longrightarrow> codec_succeeds env d entry"
    and "\<forall>i<length (iteratorInputs inp). 4 \<le> count_list sched i"
  shows "\<exists>outs.
     map_option snd (process env data inp st now now' (map Step sched))
       = Some (Inr (JObj [(''iteratorOutputs'',
                           JObj [(''type'', JStr ''object[]''), (''value'', JArr outs)])]))
     \<and> length outs = length (iteratorInputs inp)
     \<and> (\<forall>i<length (iteratorInputs inp). item_result env d entry i (outs ! i))"
proof -
  from process_validating_Dispatched [OF assms(1)]
  have items: "d_items d = iteratorInputs inp" by blast
  let ?s = "run env d (map Step sched) (init_state d entry)"
  from uncancelled_run_outputs [of d env entry sched] assms(2-4) items
  have fin: "list_all is_Finished (tasks ?s)"
    and agg: "aggregate (iteratorOutputs ?s) =
         Inr (JObj [(''iteratorOutputs'',
                 JObj [(''type'', JStr ''object[]''), (''value'', JArr (iteratorOutputs ?s))])])"
    and len: "length (iteratorOutputs ?s) = length (iteratorInputs inp)"
    and res: "\<forall>i<length (iteratorInputs inp). item_result env d entry i (iteratorOutputs ?s ! i)"
    by simp_all
  from process_Dispatched [OF assms(1) fin, of now'] agg len res show ?thesis
    by auto
qed

theorem outputs_in_input_order_witness:
  "\<exists>outs.
     map_option snd (process (stub_env [] False [JObj (stub_outputs 0), JObj (stub_outputs 1)])
        (stub_data True) (stub_inputs [stub_item 1, stub_item 5])
        [Some ''node-1'' \<mapsto> stale_entry] 1000 1001 (map Step [1, 0, 1, 0, 1, 0, 1, 0]))
       = Some (Inr (JObj [(''iteratorOutputs'',
                           JObj [(''type'', JStr ''object[]''), (''value'', JArr outs)])]))
     \<and> length outs = length (iteratorInputs (stub_inputs [stub_item 1, stub_item 5]))
     \<and> (\<forall>i<length (iteratorInputs (stub_inputs [stub_item 1, stub_item 5])).
          item_result (stub_env [] False [JObj (stub_outputs 0), JObj (stub_outputs 1)])
            (stub_dispatch [stub_item 1, stub_item 5] True)
            (stale_entry\<lparr>cache := Map.empty,
               graphSnapshot := Some ''#[{id:x,dataType:number},{id:y,dataType:number},{text:hello}]''\<rparr>)
            i (outs ! i))"
proof (rule outputs_in_input_order [OF stub_process_validating])
  show "\<forall>i<length (iteratorInputs (stub_inputs [stub_item 1, stub_item 5])).
       invocation_succeeds (stub_env [] False [JObj (stub_outputs 0), JObj (stub_outputs 1)])
         (stub_dispatch [stub_item 1, stub_item 5] True) i"
    by (simp add: stub_invocation_succeeds)
  show "d_hasCache (stub_dispatch [stub_item 1, stub_item 5] True) \<longrightarrow>
      codec_succeeds (stub_env [] False [JObj (stub_outputs 0), JObj (stub_outputs 1)])
         (stub_dispatch [stub_item 1, stub_item 5] True)
         (stale_entry\<lparr>cache := Map.empty,
               graphSnapshot := Some ''#[{id:x,dataType:number},{id:y,dataType:number},{text:hello}]''\<rparr>)"
    by (rule impI) (rule stub_codec_succeeds)
  show "\<forall>i<length (iteratorInputs (stub_inputs [stub_item 1, stub_item 5])).
       4 \<le> count_list [1, 0, 1, 0, 1, 0, 1, 0] i"
    by (auto simp: stub_inputs_def less_Suc_eq)
qed

lemma run_broken_compressor:
  "cache entry = Map.empty \<Longrightarrow>
   run (stub_env [] True []) (stub_dispatch [stub_item 1] True) (map Step [0, 0, 0, 0])
     (init_state (stub_dispatch [stub_item 1] True) entry)
   = \<lparr>abortIteration = True, cacheMap = cache entry,
      tasks = [Finished (failedOutput (stub_env [] True []) (stub_dispatch [stub_item 1] True) 0
                 (stub_item 1) (stub_outputs 0) (JsError ''Invalid string length''))],
      invoked = [0]\<rparr>"
  by (simp add: run_Nil run_Cons init_state_def task_step_start task_step_miss task_step_process
      task_step_store stub_invoke stub_compress_broken)

lemma run_cancelled:
  "run (stub_env [] False []) (stub_dispatch [stub_item 1, stub_item 5] False)
     [Signal, Step 0, Step 1]
     (init_state (stub_dispatch [stub_item 1, stub_item 5] False) entry)
   = \<lparr>abortIteration = True, cacheMap = cache entry,
      tasks = [Finished skippedOutput, Finished skippedOutput], invoked = []\<rparr>"
  by (simp add: run_Nil run_Cons init_state_def task_step_skip)

text \<open>
  Without the two added conditions the claim fails. With caching on and a compressor that
  throws, the single item is valid and its invocation succeeds, yet \<^verbatim>\<open>process\<close> returns
  the aggregated error and no array. And when the abort signal fires before the tasks
  start, both items are skipped although no invocation fails.
\<close>

theorem outputs_in_input_order_counterexample:
  "snd (process_validating (stub_env [] True []) (stub_data True) (stub_inputs [stub_item 1])
          Map.empty 1000)
     = Dispatched (stub_dispatch [stub_item 1] True)
        \<lparr>cache = Map.empty, expiryTimestamp = 4600,
         graphSnapshot = Some ''#[{id:x,dataType:number},{id:y,dataType:number},{text:hello}]''\<rparr>
   \<and> invocation_succeeds (stub_env [] True []) (stub_dispatch [stub_item 1] True) 0
   \<and> map_option snd (process (stub_env [] True []) (stub_data True) (stub_inputs [stub_item 1])
        Map.empty 1000 1001 (map Step [0, 0, 0, 0]))
     = Some (Inr (JObj [(''iteratorOutputs'', excluded),
         (''error'', string_value
            (''ItemIndex: 0:: Error running graph Sub.  ItemIndex: 0::  Inputs: ''
             @ ''{x:{type:number,value:1},y:{type:number,value:2}}''
             @ ''  Message: Invalid string length''))]))
   \<and> invocation_succeeds (stub_env [] False []) (stub_dispatch [stub_item 1, stub_item 5] False) 0
   \<and> invocation_succeeds (stub_env [] False []) (stub_dispatch [stub_item 1, stub_item 5] False) 1
   \<and> map_option snd (process (stub_env [] False []) (stub_data False)
        (stub_inputs [stub_item 1, stub_item 5]) Map.empty 1000 1001 [Signal, Step 0, Step 1])
     = Some (Inr (JObj [(''iteratorOutputs'', excluded),
         (''error'', string_value ''ItemIndex: 0:: undefined; ItemIndex: 1:: undefined'')]))"
proof -
  let ?e = "\<lparr>cache = Map.empty, expiryTimestamp = 4600,
         graphSnapshot = Some ''#[{id:x,dataType:number},{id:y,dataType:number},{text:hello}]''\<rparr>"
  have v1: "process_validating (stub_env [] True []) (stub_data True) (stub_inputs [stub_item 1])
          Map.empty 1000 = (Map.empty, Dispatched (stub_dispatch [stub_item 1] True) ?e)"
    by (rule stub_validating) auto
  have v2: "process_validating (stub_env [] False []) (stub_data False)
          (stub_inputs [stub_item 1, stub_item 5]) Map.empty 1000
        = (Map.empty, Dispatched (stub_dispatch [stub_item 1, stub_item 5] False) ?e)"
    by (rule stub_validating) auto
  have f1: "list_all is_Finished (tasks (run (stub_env [] True []) (stub_dispatch [stub_item 1] True)
       (map Step [0, 0, 0, 0]) (init_state (stub_dispatch [stub_item 1] True) ?e)))"
    by (subst run_broken_compressor) simp_all
  have f2: "list_all is_Finished (tasks (run (stub_env [] False [])
       (stub_dispatch [stub_item 1, stub_item 5] False) [Signal, Step 0, Step 1]
       (init_state (stub_dispatch [stub_item 1, stub_item 5] False) ?e)))"
    unfolding run_cancelled by simp
  have a1: "aggregate [failedOutput (stub_env [] True []) (stub_dispatch [stub_item 1] True) 0
                 (stub_item 1) (stub_outputs 0) (JsError ''Invalid string length'')]
     = Inr (JObj [(''iteratorOutputs'', excluded),
         (''error'', string_value
            (''ItemIndex: 0:: Error running graph Sub.  ItemIndex: 0::  Inputs: ''
             @ ''{x:{type:number,value:1},y:{type:number,value:2}}''
             @ ''  Message: Invalid string length''))])"
    by (subst aggregate_error)
       (simp_all add: is_excluded_failedOutput error_part_failed failureMessage_def
          stub_stringify_items string_of_nat.simps upt_rec)
  have a2: "aggregate [skippedOutput, skippedOutput]
     = Inr (JObj [(''iteratorOutputs'', excluded),
         (''error'', string_value ''ItemIndex: 0:: undefined; ItemIndex: 1:: undefined'')])"
    by (subst aggregate_error)
       (simp_all add: is_excluded_skippedOutput error_part_skipped string_of_nat.simps upt_rec)
  have p1: "map_option snd (process (stub_env [] True []) (stub_data True) (stub_inputs [stub_item 1])
        Map.empty 1000 1001 (map Step [0, 0, 0, 0]))
     = Some (Inr (JObj [(''iteratorOutputs'', excluded),
         (''error'', string_value
            (''ItemIndex: 0:: Error running graph Sub.  ItemIndex: 0::  Inputs: ''
             @ ''{x:{type:number,value:1},y:{type:number,value:2}}''
             @ ''  Message: Invalid string length''))]))"
    unfolding process_Dispatched [OF v1 f1] iteratorOutputs_def
    using a1 by (subst run_broken_compressor) simp_all
  have p2: "map_option snd (process (stub_env [] False []) (stub_data False)
        (stub_inputs [stub_item 1, stub_item 5]) Map.empty 1000 1001 [Signal, Step 0, Step 1])
     = Some (Inr (JObj [(''iteratorOutputs'', excluded),
         (''error'', string_value ''ItemIndex: 0:: undefined; ItemIndex: 1:: undefined'')]))"
    unfolding process_Dispatched [OF v2 f2] run_cancelled iteratorOutputs_def
    using a2 by simp
  from v1 p1 p2 show ?thesis
    by (simp add: stub_invocation_succeeds)
qed

end
